theory Spec2Isabelle
  imports Complex_Main
begin

section \<open>Data model of the task detail modal\<close>

text \<open>
  The component \<^verbatim>\<open>TaskDetailModal\<close> edits a local copy of a task's extended details.
  The module \<^verbatim>\<open>../types\<close> is not among the sources, so each record below lists the
  fields that \<^verbatim>\<open>TaskDetailModal.tsx\<close> reads or writes. An optional property
  (one the component reads with \<^verbatim>\<open>?.\<close> or \<^verbatim>\<open>||\<close>) is an \<open>option\<close>, with \<open>None\<close> for
  \<^verbatim>\<open>undefined\<close>. Field names carry a prefix where the source's name is a HOL constant
  or an Isabelle keyword (\<^verbatim>\<open>id\<close>, \<^verbatim>\<open>text\<close>, \<^verbatim>\<open>notes\<close>, \<^verbatim>\<open>x\<close>, \<^verbatim>\<open>type\<close>). JavaScript numbers are
  modelled as reals; rounding is not modelled.
\<close>

record ActionItem =
  ai_id :: string
  ai_text :: string
  ai_completed :: bool
  ai_completedDate :: "string option"

record Attachment =
  att_id :: string
  att_name :: string
  att_type :: string
  att_dataUrl :: string

record Position =
  pos_x :: real
  pos_y :: real

record SubStep =
  ss_id :: string
  ss_text :: string
  ss_notes :: "string option"
  ss_position :: "Position option"
  ss_actionItems :: "ActionItem list option"
  ss_attachments :: "Attachment list option"

record Decision =
  dec_id :: string
  dec_question :: string
  dec_status :: string
  dec_decision :: "string option"
  dec_reasoning :: "string option"
  dec_date :: "string option"

typedecl Slide

record SlideDeck =
  slides :: "Slide list"

record CanvasSize =
  cs_width :: real
  cs_height :: real

text \<open>\<^verbatim>\<open>EditableExtendedTaskDetails\<close>: the value held in \<^verbatim>\<open>localDetails\<close>.\<close>

record Details =
  subSteps :: "SubStep list"
  resources :: string
  responsible :: string
  d_notes :: string
  attachments :: "Attachment list option"
  decisions :: "Decision list option"
  subStepCanvasSize :: "CanvasSize option"
  reportDeck :: "SlideDeck option"

record ProjectTask =
  task_id :: string
  task_title :: string
  task_description :: string
  task_extendedDetails :: "Details option"

text \<open>
  \<^verbatim>\<open>Partial<EditableExtendedTaskDetails>\<close>, the argument of \<^verbatim>\<open>updateLocalDetails\<close>:
  \<open>None\<close> is a key that the object literal does not have, \<open>Some v\<close> a key with value \<open>v\<close>.
\<close>

record PartialDetails =
  p_subSteps :: "SubStep list option"
  p_resources :: "string option"
  p_responsible :: "string option"
  p_notes :: "string option"
  p_attachments :: "Attachment list option option"
  p_decisions :: "Decision list option option"
  p_subStepCanvasSize :: "CanvasSize option option"
  p_reportDeck :: "SlideDeck option option"

definition noUpdates :: PartialDetails where
  "noUpdates = \<lparr>p_subSteps = None, p_resources = None, p_responsible = None, p_notes = None,
     p_attachments = None, p_decisions = None, p_subStepCanvasSize = None, p_reportDeck = None\<rparr>"

text \<open>The spread \<^verbatim>\<open>{ ...prev, ...updates }\<close>: a key of \<open>updates\<close> overrides that of \<open>prev\<close>.\<close>

definition orElse :: "'a option \<Rightarrow> 'a \<Rightarrow> 'a" where
  "orElse u v = (case u of None \<Rightarrow> v | Some w \<Rightarrow> w)"

definition spreadDetails :: "Details \<Rightarrow> PartialDetails \<Rightarrow> Details" where
  "spreadDetails prev updates =
     \<lparr>subSteps = orElse (p_subSteps updates) (subSteps prev),
      resources = orElse (p_resources updates) (resources prev),
      responsible = orElse (p_responsible updates) (responsible prev),
      d_notes = orElse (p_notes updates) (d_notes prev),
      attachments = orElse (p_attachments updates) (attachments prev),
      decisions = orElse (p_decisions updates) (decisions prev),
      subStepCanvasSize = orElse (p_subStepCanvasSize updates) (subStepCanvasSize prev),
      reportDeck = orElse (p_reportDeck updates) (reportDeck prev)\<rparr>"

section \<open>Component state\<close>

datatype Tab = Overview | Substeps | Decisions | Reports

record Proposal =
  prop_title :: string
  prop_description :: string

record FlatItem =
  actionItem :: ActionItem
  subStep :: SubStep

text \<open>
  One field per \<^verbatim>\<open>useState\<close> of the component, plus the value of the hidden file input,
  which \<^verbatim>\<open>handleAttachmentChange\<close> clears.
\<close>

record ModalState =
  activeTab :: Tab
  isMaximized :: bool
  isGeneratingProposals :: bool
  proposalError :: "string option"
  showProposalReview :: bool
  proposals :: "Proposal list"
  isSlideEditorOpen :: bool
  isGeneratingSlides :: bool
  slideError :: "string option"
  showActionItemTable :: bool
  selectedActionItem :: "FlatItem option"
  showDecisionModal :: bool
  showCustomReportModal :: bool
  connectingSubStep :: "string option"
  draggedSubStep :: "string option"
  mousePos :: Position
  localDetails :: Details
  fileInputValue :: string

text \<open>
  \<^verbatim>\<open>task.extendedDetails || { subSteps: [], ... }\<close>: an object is truthy, so the default is
  taken exactly when the property is absent.
\<close>

definition defaultDetails :: Details where
  "defaultDetails =
     \<lparr>subSteps = [], resources = [], responsible = [], d_notes = [],
      attachments = Some [], decisions = Some [],
      subStepCanvasSize = Some \<lparr>cs_width = 1200, cs_height = 800\<rparr>,
      reportDeck = None\<rparr>"

definition extendedDetails :: "ProjectTask \<Rightarrow> Details" where
  "extendedDetails task =
     (case task_extendedDetails task of Some d \<Rightarrow> d | None \<Rightarrow> defaultDetails)"

text \<open>The state of the first render: the initial value of every \<^verbatim>\<open>useState\<close>.\<close>

definition initialState :: "ProjectTask \<Rightarrow> ModalState" where
  "initialState task =
     \<lparr>activeTab = Overview, isMaximized = False, isGeneratingProposals = False,
      proposalError = None, showProposalReview = False, proposals = [],
      isSlideEditorOpen = False, isGeneratingSlides = False, slideError = None,
      showActionItemTable = False, selectedActionItem = None, showDecisionModal = False,
      showCustomReportModal = False, connectingSubStep = None, draggedSubStep = None,
      mousePos = \<lparr>pos_x = 0, pos_y = 0\<rparr>,
      localDetails = extendedDetails task, fileInputValue = []\<rparr>"

text \<open>
  \<^verbatim>\<open>updateLocalDetails\<close> is \<^verbatim>\<open>setLocalDetails(prev => ({ ...prev, ...updates }))\<close>: the
  update is applied to the state that is current when it is processed.
\<close>

definition updateLocalDetails :: "PartialDetails \<Rightarrow> ModalState \<Rightarrow> ModalState" where
  "updateLocalDetails updates s = s\<lparr>localDetails := spreadDetails (localDetails s) updates\<rparr>"

section \<open>Flattened action items\<close>

text \<open>
  \<^verbatim>\<open>flattenedActionItems\<close>: the two nested \<^verbatim>\<open>forEach\<close> loops that push onto \<^verbatim>\<open>items\<close>.
  \<^verbatim>\<open>subStep.actionItems?.forEach\<close> does nothing when the property is absent.
\<close>

definition pushActionItems :: "FlatItem list \<Rightarrow> SubStep \<Rightarrow> FlatItem list" where
  "pushActionItems items ss =
     (case ss_actionItems ss of
        None \<Rightarrow> items
      | Some ais \<Rightarrow> foldl (\<lambda>acc ai. acc @ [\<lparr>actionItem = ai, subStep = ss\<rparr>]) items ais)"

definition flattenedActionItems :: "Details \<Rightarrow> FlatItem list" where
  "flattenedActionItems d = foldl pushActionItems [] (subSteps d)"

text \<open>The counters of the reports tab and of the header badge.\<close>

definition actionItemTotal :: "Details \<Rightarrow> nat" where
  "actionItemTotal d = length (flattenedActionItems d)"

definition completedActionCount :: "Details \<Rightarrow> nat" where
  "completedActionCount d =
     length (filter (\<lambda>item. ai_completed (actionItem item)) (flattenedActionItems d))"

text \<open>A sub-step's action items, with a missing property read as the empty list.\<close>

definition itemsOf :: "SubStep \<Rightarrow> ActionItem list" where
  "itemsOf ss = orElse (ss_actionItems ss) []"

section \<open>String literals of the source\<close>

text \<open>
  The component's Japanese string literals, as their UTF-8 bytes: the default text of a
  new sub-step and of a new action item, the two fallback error messages, and the message
  of the size alert (the template with \<^verbatim>\<open>MAX_FILE_SIZE_MB\<close> = 5 filled in).
\<close>

definition bytes :: "nat list \<Rightarrow> string" where
  "bytes ns = map char_of ns"

definition newSubStepText :: string where
  "newSubStepText = bytes [230, 150, 176, 227, 129, 151, 227, 129, 132, 227, 130, 181, 227,
     131, 150, 227, 130, 185, 227, 131, 134, 227, 131, 131, 227, 131, 151]"

definition newActionItemText :: string where
  "newActionItemText = bytes [230, 150, 176, 227, 129, 151, 227, 129, 132, 227, 130, 162, 227,
     130, 175, 227, 130, 183, 227, 131, 167, 227, 131, 179, 227, 130, 162, 227, 130, 164, 227,
     131, 134, 227, 131, 160]"

definition proposalFallbackMessage :: string where
  "proposalFallbackMessage = bytes [227, 130, 185, 227, 131, 134, 227, 131, 131, 227, 131,
     151, 230, 143, 144, 230, 161, 136, 227, 129, 174, 231, 148, 159, 230, 136, 144, 227, 129,
     171, 229, 164, 177, 230, 149, 151, 227, 129, 151, 227, 129, 190, 227, 129, 151, 227, 129,
     159, 227, 128, 130]"

definition slideFallbackMessage :: string where
  "slideFallbackMessage = bytes [227, 130, 185, 227, 131, 169, 227, 130, 164, 227, 131, 137,
     227, 129, 174, 231, 148, 159, 230, 136, 144, 227, 129, 171, 229, 164, 177, 230, 149, 151,
     227, 129, 151, 227, 129, 190, 227, 129, 151, 227, 129, 159, 227, 128, 130]"

definition fileTooLargeMessage :: string where
  "fileTooLargeMessage = bytes [227, 131, 149, 227, 130, 161, 227, 130, 164, 227, 131, 171,
     227, 130, 181, 227, 130, 164, 227, 130, 186, 227, 129, 140, 229, 164, 167, 227, 129, 141,
     227, 129, 153, 227, 129, 142, 227, 129, 190, 227, 129, 153, 227, 128, 130, 53, 77, 66, 230,
     156, 170, 230, 186, 128, 227, 129, 174, 227, 131, 149, 227, 130, 161, 227, 130, 164, 227,
     131, 171, 227, 130, 146, 233, 129, 184, 230, 138, 158, 227, 129, 151, 227, 129, 166, 227,
     129, 143, 227, 129, 160, 227, 129, 149, 227, 129, 132, 227, 128, 130]"

section \<open>Identifiers\<close>

text \<open>
  \<^verbatim>\<open>generateUniqueId\<close> is a prop of the component: a function from a prefix to a new
  identifier. It is not pure, so the model passes it as a parameter that threads a
  generator state \<open>'g\<close>: \<open>gen prefix g\<close> is the identifier and the next state.
\<close>

type_synonym 'g idgen = "string \<Rightarrow> 'g \<Rightarrow> string \<times> 'g"

section \<open>Sub-step and action-item handlers\<close>

text \<open>\<^verbatim>\<open>Partial<SubStep>\<close> and \<^verbatim>\<open>Partial<ActionItem>\<close>, read as \<open>PartialDetails\<close> is.\<close>

record PartialSubStep =
  u_id :: "string option"
  u_text :: "string option"
  u_notes :: "string option option"
  u_position :: "Position option option"
  u_actionItems :: "ActionItem list option option"
  u_attachments :: "Attachment list option option"

record PartialActionItem =
  v_id :: "string option"
  v_text :: "string option"
  v_completed :: "bool option"
  v_completedDate :: "string option option"

definition spreadSubStep :: "SubStep \<Rightarrow> PartialSubStep \<Rightarrow> SubStep" where
  "spreadSubStep ss updates =
     \<lparr>ss_id = orElse (u_id updates) (ss_id ss),
      ss_text = orElse (u_text updates) (ss_text ss),
      ss_notes = orElse (u_notes updates) (ss_notes ss),
      ss_position = orElse (u_position updates) (ss_position ss),
      ss_actionItems = orElse (u_actionItems updates) (ss_actionItems ss),
      ss_attachments = orElse (u_attachments updates) (ss_attachments ss)\<rparr>"

definition spreadActionItem :: "ActionItem \<Rightarrow> PartialActionItem \<Rightarrow> ActionItem" where
  "spreadActionItem ai updates =
     \<lparr>ai_id = orElse (v_id updates) (ai_id ai),
      ai_text = orElse (v_text updates) (ai_text ai),
      ai_completed = orElse (v_completed updates) (ai_completed ai),
      ai_completedDate = orElse (v_completedDate updates) (ai_completedDate ai)\<rparr>"

text \<open>The object literals \<^verbatim>\<open>{ subSteps: v }\<close>, \<^verbatim>\<open>{ attachments: v }\<close>, \<^verbatim>\<open>{ reportDeck: v }\<close>
  and \<^verbatim>\<open>{ position: p }\<close>.\<close>

definition onlySubSteps :: "SubStep list \<Rightarrow> PartialDetails" where
  "onlySubSteps v = noUpdates\<lparr>p_subSteps := Some v\<rparr>"

definition onlyAttachments :: "Attachment list \<Rightarrow> PartialDetails" where
  "onlyAttachments v = noUpdates\<lparr>p_attachments := Some (Some v)\<rparr>"

definition onlyReportDeck :: "SlideDeck \<Rightarrow> PartialDetails" where
  "onlyReportDeck v = noUpdates\<lparr>p_reportDeck := Some (Some v)\<rparr>"

definition onlyPosition :: "Position \<Rightarrow> PartialSubStep" where
  "onlyPosition p = \<lparr>u_id = None, u_text = None, u_notes = None, u_position = Some (Some p),
     u_actionItems = None, u_attachments = None\<rparr>"

definition handleAddSubStep :: "'g idgen \<Rightarrow> bool \<Rightarrow> ModalState \<times> 'g \<Rightarrow> ModalState \<times> 'g" where
  "handleAddSubStep gen canEdit sg =
     (case sg of (s, g) \<Rightarrow>
        if \<not> canEdit then (s, g)
        else (case gen ''substep'' g of (i, g') \<Rightarrow>
          (updateLocalDetails (onlySubSteps (subSteps (localDetails s) @
             [\<lparr>ss_id = i, ss_text = newSubStepText, ss_notes = Some [],
               ss_position = Some \<lparr>pos_x = 50, pos_y = 50\<rparr>,
               ss_actionItems = Some [], ss_attachments = Some []\<rparr>])) s, g')))"

definition handleUpdateSubStep :: "bool \<Rightarrow> string \<Rightarrow> PartialSubStep \<Rightarrow> ModalState \<Rightarrow> ModalState" where
  "handleUpdateSubStep canEdit subStepId updates s =
     (if \<not> canEdit then s
      else updateLocalDetails (onlySubSteps
             (map (\<lambda>ss. if ss_id ss = subStepId then spreadSubStep ss updates else ss)
                (subSteps (localDetails s)))) s)"

text \<open>
  \<^verbatim>\<open>confirm(...)\<close> blocks on a dialog and returns the user's answer; the answer is the
  parameter \<open>confirmed\<close>, read only after the \<^verbatim>\<open>canEdit\<close> guard has passed.
\<close>

definition handleRemoveSubStep :: "bool \<Rightarrow> bool \<Rightarrow> string \<Rightarrow> ModalState \<Rightarrow> ModalState" where
  "handleRemoveSubStep canEdit confirmed subStepId s =
     (if \<not> canEdit then s
      else if confirmed
        then updateLocalDetails (onlySubSteps
               (filter (\<lambda>ss. ss_id ss \<noteq> subStepId) (subSteps (localDetails s)))) s
        else s)"

definition handleAddActionItem ::
  "'g idgen \<Rightarrow> bool \<Rightarrow> string \<Rightarrow> ModalState \<times> 'g \<Rightarrow> ModalState \<times> 'g" where
  "handleAddActionItem gen canEdit subStepId sg =
     (case sg of (s, g) \<Rightarrow>
        if \<not> canEdit then (s, g)
        else (case gen ''action'' g of (i, g') \<Rightarrow>
          (updateLocalDetails (onlySubSteps
             (map (\<lambda>ss. if ss_id ss = subStepId
                         then ss\<lparr>ss_actionItems := Some (itemsOf ss @
                                [\<lparr>ai_id = i, ai_text = newActionItemText, ai_completed = False,
                                  ai_completedDate = None\<rparr>])\<rparr>
                         else ss)
                (subSteps (localDetails s)))) s, g')))"

text \<open>
  \<^verbatim>\<open>ss.actionItems?.map(...) || []\<close>: a missing list becomes the empty list (an array,
  even an empty one, is truthy).
\<close>

definition handleUpdateActionItem ::
  "bool \<Rightarrow> string \<Rightarrow> string \<Rightarrow> PartialActionItem \<Rightarrow> ModalState \<Rightarrow> ModalState" where
  "handleUpdateActionItem canEdit subStepId actionItemId updates s =
     (if \<not> canEdit then s
      else updateLocalDetails (onlySubSteps
             (map (\<lambda>ss. if ss_id ss = subStepId
                         then ss\<lparr>ss_actionItems := Some
                                (map (\<lambda>ai. if ai_id ai = actionItemId
                                            then spreadActionItem ai updates else ai)
                                   (itemsOf ss))\<rparr>
                         else ss)
                (subSteps (localDetails s)))) s)"

definition handleRemoveActionItem ::
  "bool \<Rightarrow> bool \<Rightarrow> string \<Rightarrow> string \<Rightarrow> ModalState \<Rightarrow> ModalState" where
  "handleRemoveActionItem canEdit confirmed subStepId actionItemId s =
     (if \<not> canEdit then s
      else if confirmed
        then updateLocalDetails (onlySubSteps
               (map (\<lambda>ss. if ss_id ss = subStepId
                           then ss\<lparr>ss_actionItems := Some
                                  (filter (\<lambda>ai. ai_id ai \<noteq> actionItemId) (itemsOf ss))\<rparr>
                           else ss)
                  (subSteps (localDetails s)))) s
        else s)"

section \<open>Attachments\<close>

text \<open>
  The \<^verbatim>\<open>File\<close> chosen in the hidden input (\<^verbatim>\<open>event.target.files?.[0]\<close>, absent when no
  file was chosen) with its size in bytes, and what \<^verbatim>\<open>FileReader.result\<close> holds when
  \<^verbatim>\<open>onload\<close> runs: a string, or something else.
\<close>

record File =
  file_name :: string
  file_type :: string
  file_size :: nat

datatype ReaderResult = ResultString string | ResultOther

definition MAX_FILE_SIZE_MB :: nat where
  "MAX_FILE_SIZE_MB = 5"

definition MAX_FILE_SIZE_BYTES :: nat where
  "MAX_FILE_SIZE_BYTES = MAX_FILE_SIZE_MB * 1024 * 1024"

text \<open>
  What the \<^verbatim>\<open>onload\<close> callback closes over: the file and the value that
  \<^verbatim>\<open>localDetails.attachments\<close> had when the handler ran.
\<close>

record PendingRead =
  pr_file :: File
  pr_attachments :: "Attachment list option"

text \<open>
  The synchronous part of \<^verbatim>\<open>handleAttachmentChange\<close>. It returns the new state, the
  messages passed to \<^verbatim>\<open>alert\<close>, and the read it started, if any.
\<close>

definition handleAttachmentChange ::
  "bool \<Rightarrow> File option \<Rightarrow> ModalState \<Rightarrow> ModalState \<times> string list \<times> PendingRead option" where
  "handleAttachmentChange canEdit files0 s =
     (if \<not> canEdit then (s, [], None)
      else (case files0 of
          None \<Rightarrow> (s, [], None)
        | Some file \<Rightarrow>
            if file_size file > MAX_FILE_SIZE_BYTES
            then (s\<lparr>fileInputValue := []\<rparr>, [fileTooLargeMessage], None)
            else (s\<lparr>fileInputValue := []\<rparr>, [],
                  Some \<lparr>pr_file = file, pr_attachments = attachments (localDetails s)\<rparr>)))"

text \<open>
  \<^verbatim>\<open>reader.onload\<close>, run on the state that is current when the read completes.
\<close>

definition readerOnload ::
  "'g idgen \<Rightarrow> PendingRead \<Rightarrow> ReaderResult \<Rightarrow> ModalState \<times> 'g \<Rightarrow> ModalState \<times> 'g" where
  "readerOnload gen pending result sg =
     (case sg of (s, g) \<Rightarrow>
        (case result of
           ResultOther \<Rightarrow> (s, g)
         | ResultString dataUrl \<Rightarrow>
             (case gen ''attach'' g of (i, g') \<Rightarrow>
               (updateLocalDetails (onlyAttachments (orElse (pr_attachments pending) [] @
                   [\<lparr>att_id = i, att_name = file_name (pr_file pending),
                     att_type = file_type (pr_file pending), att_dataUrl = dataUrl\<rparr>])) s,
                g'))))"

definition handleRemoveAttachment :: "bool \<Rightarrow> string \<Rightarrow> ModalState \<Rightarrow> ModalState" where
  "handleRemoveAttachment canEdit attachmentId s =
     (if \<not> canEdit then s
      else updateLocalDetails (onlyAttachments
             (filter (\<lambda>a. att_id a \<noteq> attachmentId) (orElse (attachments (localDetails s)) []))) s)"

section \<open>Drag and drop on the canvas\<close>

text \<open>
  The part of the drop event and of the canvas's bounding rectangle that the handler
  reads. \<open>canvasRef\<close> is \<^verbatim>\<open>canvasRef.current\<close>: \<open>None\<close> while the canvas is not mounted.
\<close>

record DOMRect =
  rect_left :: real
  rect_top :: real

record DragEvent =
  clientX :: real
  clientY :: real

definition handleSubStepDragStart :: "bool \<Rightarrow> string \<Rightarrow> ModalState \<Rightarrow> ModalState" where
  "handleSubStepDragStart canEdit subStepId s =
     (if \<not> canEdit then s else s\<lparr>draggedSubStep := Some subStepId\<rparr>)"

text \<open>
  \<^verbatim>\<open>!draggedSubStep\<close> holds for \<^verbatim>\<open>null\<close> and also for the empty string, which is falsy.
\<close>

definition falsy :: "string option \<Rightarrow> bool" where
  "falsy v = (case v of None \<Rightarrow> True | Some str \<Rightarrow> str = [])"

definition handleCanvasDrop ::
  "bool \<Rightarrow> DOMRect option \<Rightarrow> DragEvent \<Rightarrow> ModalState \<Rightarrow> ModalState" where
  "handleCanvasDrop canEdit canvasRef event s =
     (if \<not> canEdit \<or> falsy (draggedSubStep s) \<or> canvasRef = None then s
      else (case (draggedSubStep s, canvasRef) of
          (Some dragged, Some rect) \<Rightarrow>
            (handleUpdateSubStep canEdit dragged
               (onlyPosition \<lparr>pos_x = clientX event - rect_left rect - 100,
                              pos_y = clientY event - rect_top rect - 50\<rparr>) s)
              \<lparr>draggedSubStep := None\<rparr>
        | _ \<Rightarrow> s))"

section \<open>Calls to the AI service\<close>

text \<open>
  An awaited call either returns a value or throws. A thrown value is an \<^verbatim>\<open>Error\<close> with
  its message, or something that is not an \<^verbatim>\<open>Error\<close>.
\<close>

datatype Thrown = ErrorObject string | NotAnError

datatype 'a Settled = Fulfilled 'a | RejectedWith Thrown

text \<open>
  An \<^verbatim>\<open>async\<close> handler is two steps: what runs up to the \<^verbatim>\<open>await\<close>, returning the new
  state and the request it made of the service (\<open>None\<close> when it made none), and what runs
  once the call has settled, on the state that is current then. Each \<^verbatim>\<open>set...\<close> call
  writes one state variable, so other state changes made in between are kept.
\<close>

definition handleGenerateProposals_start ::
  "bool \<Rightarrow> ProjectTask \<Rightarrow> ModalState \<Rightarrow> ModalState \<times> ProjectTask option" where
  "handleGenerateProposals_start canEdit task s =
     (if \<not> canEdit then (s, None)
      else (s\<lparr>isGeneratingProposals := True, proposalError := None\<rparr>, Some task))"

definition handleGenerateProposals_settled :: "Proposal list Settled \<Rightarrow> ModalState \<Rightarrow> ModalState" where
  "handleGenerateProposals_settled outcome s =
     (case outcome of
        Fulfilled generatedProposals \<Rightarrow>
          s\<lparr>proposals := generatedProposals, showProposalReview := True\<rparr>
      | RejectedWith err \<Rightarrow>
          s\<lparr>proposalError := Some (case err of ErrorObject message \<Rightarrow> message
                                     | NotAnError \<Rightarrow> proposalFallbackMessage)\<rparr>)
       \<lparr>isGeneratingProposals := False\<rparr>"

text \<open>The whole handler, when nothing else happens while the call is pending.\<close>

definition handleGenerateProposals ::
  "bool \<Rightarrow> ProjectTask \<Rightarrow> Proposal list Settled \<Rightarrow> ModalState \<Rightarrow> ModalState" where
  "handleGenerateProposals canEdit task outcome s =
     (case handleGenerateProposals_start canEdit task s of
        (s1, None) \<Rightarrow> s1
      | (s1, Some request) \<Rightarrow> handleGenerateProposals_settled outcome s1)"

definition handleGenerateSlides_start ::
  "ProjectTask \<Rightarrow> string \<Rightarrow> ModalState \<Rightarrow> ModalState \<times> (ProjectTask \<times> string) option" where
  "handleGenerateSlides_start task projectGoal s =
     (case reportDeck (localDetails s) of
        Some deck \<Rightarrow> (s\<lparr>isSlideEditorOpen := True\<rparr>, None)
      | None \<Rightarrow> (s\<lparr>isGeneratingSlides := True, slideError := None\<rparr>, Some (task, projectGoal)))"

definition handleGenerateSlides_settled :: "SlideDeck Settled \<Rightarrow> ModalState \<Rightarrow> ModalState" where
  "handleGenerateSlides_settled outcome s =
     (case outcome of
        Fulfilled deck \<Rightarrow> (updateLocalDetails (onlyReportDeck deck) s)\<lparr>isSlideEditorOpen := True\<rparr>
      | RejectedWith err \<Rightarrow>
          s\<lparr>slideError := Some (case err of ErrorObject message \<Rightarrow> message
                                  | NotAnError \<Rightarrow> slideFallbackMessage)\<rparr>)
       \<lparr>isGeneratingSlides := False\<rparr>"

definition handleGenerateSlides ::
  "ProjectTask \<Rightarrow> string \<Rightarrow> SlideDeck Settled \<Rightarrow> ModalState \<Rightarrow> ModalState" where
  "handleGenerateSlides task projectGoal outcome s =
     (case handleGenerateSlides_start task projectGoal s of
        (s1, None) \<Rightarrow> s1
      | (s1, Some request) \<Rightarrow> handleGenerateSlides_settled outcome s1)"

definition handleSaveSlides :: "SlideDeck \<Rightarrow> ModalState \<Rightarrow> ModalState" where
  "handleSaveSlides deck s = updateLocalDetails (onlyReportDeck deck) s"

text \<open>
  \<^verbatim>\<open>handleGenerateSlides\<close> has one call site, the button of the reports tab, which is
  rendered with \<^verbatim>\<open>disabled={isGeneratingSlides}\<close>; a disabled button delivers no click.
\<close>

definition slidesButtonDisabled :: "ModalState \<Rightarrow> bool" where
  "slidesButtonDisabled s = isGeneratingSlides s"

section \<open>Confirming proposals\<close>

text \<open>
  The argument of \<^verbatim>\<open>handleProposalConfirm\<close>: the proposals to add as sub-steps and the
  action items to add, each naming its target sub-step.
\<close>

record NewActionItem =
  targetSubStepId :: string
  nai_title :: string

record Additions =
  newSubSteps :: "Proposal list"
  newActionItems :: "NewActionItem list"

text \<open>
  \<^verbatim>\<open>handleProposalConfirm\<close> is the one handler that writes into objects it did not
  create: \<^verbatim>\<open>[...localDetails.subSteps, ...newSubSteps]\<close> copies the array but not the
  sub-step objects in it, and the loop then assigns to \<^verbatim>\<open>targetSubStep.actionItems\<close> and
  pushes onto that array. The same objects are held by the previous value of the buffer
  and, until a handler has replaced them, by \<^verbatim>\<open>task.extendedDetails\<close>. So this handler is
  modelled on a store: sub-step objects and action-item arrays live at addresses, an
  object refers to its array by address, and \<^verbatim>\<open>localDetails.subSteps\<close> is a list of
  object addresses. An address is a position in the store's list; allocation appends.
\<close>

type_synonym addr = nat

record SubStepObject =
  so_id :: string
  so_text :: string
  so_notes :: "string option"
  so_position :: "Position option"
  so_actionItems :: "addr option"
  so_attachments :: "Attachment list option"

record Store =
  objects :: "SubStepObject list"
  arrays :: "ActionItem list list"

text \<open>What is read through an address: the sub-step value, with the array's contents.\<close>

definition viewSubStep :: "Store \<Rightarrow> addr \<Rightarrow> SubStep" where
  "viewSubStep st a =
     \<lparr>ss_id = so_id (objects st ! a), ss_text = so_text (objects st ! a),
      ss_notes = so_notes (objects st ! a), ss_position = so_position (objects st ! a),
      ss_actionItems = map_option (\<lambda>arr. arrays st ! arr) (so_actionItems (objects st ! a)),
      ss_attachments = so_attachments (objects st ! a)\<rparr>"

definition viewSubSteps :: "Store \<Rightarrow> addr list \<Rightarrow> SubStep list" where
  "viewSubSteps st refs = map (viewSubStep st) refs"

definition newArray :: "ActionItem list \<Rightarrow> Store \<Rightarrow> addr \<times> Store" where
  "newArray items st = (length (arrays st), st\<lparr>arrays := arrays st @ [items]\<rparr>)"

definition newObject :: "SubStepObject \<Rightarrow> Store \<Rightarrow> addr \<times> Store" where
  "newObject ob st = (length (objects st), st\<lparr>objects := objects st @ [ob]\<rparr>)"

text \<open>
  The object literal built for the proposal at position \<open>index\<close>, with identifier \<open>i\<close>:
  \<open>proposedObject\<close> is the object, whose \<^verbatim>\<open>actionItems\<close> is the new empty array at \<open>arr\<close>,
  and \<open>proposedSubStep\<close> is the value read through it.
\<close>

definition proposedObject :: "string \<Rightarrow> Proposal \<Rightarrow> nat \<Rightarrow> addr \<Rightarrow> SubStepObject" where
  "proposedObject i proposal index arr =
     \<lparr>so_id = i, so_text = prop_title proposal, so_notes = Some (prop_description proposal),
      so_position = Some \<lparr>pos_x = 50 + real (index mod 3) * 300,
                          pos_y = 50 + of_int \<lfloor>real index / 3\<rfloor> * 200\<rparr>,
      so_actionItems = Some arr, so_attachments = Some []\<rparr>"

definition proposedSubStep :: "string \<Rightarrow> Proposal \<Rightarrow> nat \<Rightarrow> SubStep" where
  "proposedSubStep i proposal index =
     \<lparr>ss_id = i, ss_text = prop_title proposal, ss_notes = Some (prop_description proposal),
      ss_position = Some \<lparr>pos_x = 50 + real (index mod 3) * 300,
                          pos_y = 50 + of_int \<lfloor>real index / 3\<rfloor> * 200\<rparr>,
      ss_actionItems = Some [], ss_attachments = Some []\<rparr>"

text \<open>
  \<^verbatim>\<open>additions.newSubSteps.map((proposal, index) => ...)\<close>: one call of
  \<^verbatim>\<open>generateUniqueId('substep')\<close>, one new array and one new object per proposal, in
  order. The result is the list of the new objects' addresses.
\<close>

fun mapProposals ::
  "'g idgen \<Rightarrow> nat \<Rightarrow> Proposal list \<Rightarrow> Store \<times> 'g \<Rightarrow> addr list \<times> Store \<times> 'g" where
  "mapProposals gen index [] (st, g) = ([], st, g)"
| "mapProposals gen index (proposal # rest) (st, g) =
     (case gen ''substep'' g of (i, g1) \<Rightarrow>
       (case newArray [] st of (arr, st1) \<Rightarrow>
         (case newObject (proposedObject i proposal index arr) st1 of (a, st2) \<Rightarrow>
           (case mapProposals gen (Suc index) rest (st2, g1) of (others, st3, g3) \<Rightarrow>
              (a # others, st3, g3)))))"

text \<open>
  One round of the \<^verbatim>\<open>forEach\<close> over \<^verbatim>\<open>additions.newActionItems\<close>.
  \<^verbatim>\<open>updatedSubSteps.find(ss => ss.id === item.targetSubStepId)\<close> is the first listed
  object with the target id (\<open>find\<close> of the list library). If there is one,
  \<^verbatim>\<open>targetSubStep.actionItems = targetSubStep.actionItems || []\<close> keeps the object's array
  or, when it has none, stores a new empty array in the object; then the new item is
  pushed onto that array. Both writes are in place.
\<close>

definition pushProposedItem ::
  "'g idgen \<Rightarrow> addr list \<Rightarrow> Store \<times> 'g \<Rightarrow> NewActionItem \<Rightarrow> Store \<times> 'g" where
  "pushProposedItem gen updatedSubSteps acc item =
     (case acc of (st, g) \<Rightarrow>
        (case find (\<lambda>a. so_id (objects st ! a) = targetSubStepId item) updatedSubSteps of
           None \<Rightarrow> (st, g)
         | Some targetSubStep \<Rightarrow>
             (case (case so_actionItems (objects st ! targetSubStep) of
                      Some arr \<Rightarrow> (arr, st)
                    | None \<Rightarrow>
                        (case newArray [] st of (arr, st1) \<Rightarrow>
                           (arr, st1\<lparr>objects := (objects st1)[targetSubStep :=
                                    (objects st1 ! targetSubStep)\<lparr>so_actionItems := Some arr\<rparr>]\<rparr>))) of
                (arr, st2) \<Rightarrow>
                  (case gen ''action'' g of (i, g') \<Rightarrow>
                     (st2\<lparr>arrays := (arrays st2)[arr := arrays st2 ! arr @
                         [\<lparr>ai_id = i, ai_text = nai_title item, ai_completed = False,
                           ai_completedDate = None\<rparr>]]\<rparr>, g')))))"

text \<open>
  The handler. Its memory is the state, the addresses \<open>refs\<close> that
  \<^verbatim>\<open>localDetails.subSteps\<close> holds, the store and the generator. The new buffer holds the
  old addresses followed by the new ones, and the state's sub-step list is what is read
  through them after the loop.
\<close>

definition handleProposalConfirm ::
  "'g idgen \<Rightarrow> Additions \<Rightarrow> ModalState \<times> addr list \<times> Store \<times> 'g \<Rightarrow>
     ModalState \<times> addr list \<times> Store \<times> 'g" where
  "handleProposalConfirm gen additions m =
     (case m of (s, refs, st, g) \<Rightarrow>
        (case mapProposals gen 0 (newSubSteps additions) (st, g) of (new, st1, g1) \<Rightarrow>
           (case foldl (pushProposedItem gen (refs @ new)) (st1, g1) (newActionItems additions) of
              (st2, g2) \<Rightarrow>
                ((updateLocalDetails (onlySubSteps (viewSubSteps st2 (refs @ new))) s)
                   \<lparr>showProposalReview := False\<rparr>, refs @ new, st2, g2))))"

text \<open>
  A store and a list of addresses read from it are well formed when every listed address
  and every array it refers to is allocated, no object is listed twice, and no two listed
  objects refer to the same array. This is what data parsed from JSON looks like, and what
  the handlers of this component produce from it: they build new objects and new arrays,
  and only \<^verbatim>\<open>handleProposalConfirm\<close> writes into old ones.
\<close>

definition wellFormed :: "Store \<Rightarrow> addr list \<Rightarrow> bool" where
  "wellFormed st refs \<longleftrightarrow>
     distinct refs
     \<and> (\<forall>a \<in> set refs. a < length (objects st))
     \<and> (\<forall>a \<in> set refs. case so_actionItems (objects st ! a) of
                            None \<Rightarrow> True | Some arr \<Rightarrow> arr < length (arrays st))
     \<and> (\<forall>a \<in> set refs. \<forall>b \<in> set refs.
           so_actionItems (objects st ! a) \<noteq> None
           \<and> so_actionItems (objects st ! a) = so_actionItems (objects st ! b) \<longrightarrow> a = b)"

section \<open>Debounced autosave\<close>

text \<open>
  \<^verbatim>\<open>onUpdateTask\<close> is a prop; a call of it is recorded as the pair of its arguments.
  \<^verbatim>\<open>JSON.stringify\<close> belongs to the platform and is the parameter \<open>stringify\<close>.
\<close>

type_synonym SaveCall = "string \<times> Details"

definition saveChanges :: "string \<Rightarrow> Details \<Rightarrow> SaveCall list" where
  "saveChanges taskId local = [(taskId, local)]"

text \<open>
  The callback given to \<^verbatim>\<open>setTimeout\<close>, with the values its closure holds: the task's
  id, \<^verbatim>\<open>localDetails\<close> and \<^verbatim>\<open>extendedDetails\<close> of the render that ran the effect. Its
  result is the list of \<^verbatim>\<open>onUpdateTask\<close> calls it makes.
\<close>

definition autosaveTimeout ::
  "(Details \<Rightarrow> string) \<Rightarrow> string \<Rightarrow> Details \<Rightarrow> Details \<Rightarrow> SaveCall list" where
  "autosaveTimeout stringify taskId local extended =
     (if stringify local \<noteq> stringify extended then saveChanges taskId local else [])"

text \<open>
  The life of the effect. Running it (after a render in which \<^verbatim>\<open>localDetails\<close>,
  \<^verbatim>\<open>extendedDetails\<close> or \<^verbatim>\<open>saveChanges\<close> changed) first runs the cleanup of the previous
  run, which clears its timer, and then sets a new timer; so at most one timer is pending.
  Unmounting the modal runs the cleanup too. The timer fires 1000 ms after it was set
  unless a cleanup came first. Time is not modelled beyond this order of events.
\<close>

record PendingSave =
  sv_taskId :: string
  sv_local :: Details
  sv_extended :: Details

datatype AutosaveEvent = EffectRuns | TimerFires | Unmount

definition autosaveStep ::
  "(Details \<Rightarrow> string) \<Rightarrow> ProjectTask \<Rightarrow> ModalState \<Rightarrow> AutosaveEvent \<Rightarrow> PendingSave option \<Rightarrow>
     SaveCall list \<times> PendingSave option" where
  "autosaveStep stringify task s ev timer =
     (case ev of
        EffectRuns \<Rightarrow>
          ([], Some \<lparr>sv_taskId = task_id task, sv_local = localDetails s,
                     sv_extended = extendedDetails task\<rparr>)
      | Unmount \<Rightarrow> ([], None)
      | TimerFires \<Rightarrow>
          (case timer of
             None \<Rightarrow> ([], None)
           | Some c \<Rightarrow> (autosaveTimeout stringify (sv_taskId c) (sv_local c) (sv_extended c), None)))"

text \<open>
  A run of the effect: a sequence of events, each with the props and the state of the
  render it belongs to. The result is every \<^verbatim>\<open>onUpdateTask\<close> call made, in order, and the
  timer that is pending at the end.
\<close>

fun autosaveRun ::
  "(Details \<Rightarrow> string) \<Rightarrow> PendingSave option \<Rightarrow> (ProjectTask \<times> ModalState \<times> AutosaveEvent) list \<Rightarrow>
     SaveCall list \<times> PendingSave option" where
  "autosaveRun stringify timer [] = ([], timer)"
| "autosaveRun stringify timer ((task, s, ev) # rest) =
     (case autosaveStep stringify task s ev timer of (calls, timer1) \<Rightarrow>
        (case autosaveRun stringify timer1 rest of (later, timer2) \<Rightarrow> (calls @ later, timer2)))"

section \<open>The handlers that check \<^verbatim>\<open>canEdit\<close>\<close>

text \<open>
  An invocation of one of the eleven handlers that begin with the \<^verbatim>\<open>canEdit\<close> guard, with
  the arguments and the answers of the environment it may read: the outcome of the AI
  call, the answer to \<^verbatim>\<open>confirm\<close>, the chosen file and the reader's result, the canvas
  rectangle and the drop event.
\<close>

datatype Invocation =
    GenerateProposals "Proposal list Settled"
  | AddSubStep
  | UpdateSubStep string PartialSubStep
  | RemoveSubStep string bool
  | AddActionItem string
  | UpdateActionItem string string PartialActionItem
  | RemoveActionItem string string bool
  | AttachmentChange "File option" ReaderResult
  | RemoveAttachment string
  | SubStepDragStart string
  | CanvasDrop "DOMRect option" DragEvent

definition invoke ::
  "'g idgen \<Rightarrow> bool \<Rightarrow> ProjectTask \<Rightarrow> ModalState \<times> 'g \<Rightarrow> Invocation \<Rightarrow> ModalState \<times> 'g" where
  "invoke gen canEdit task sg call =
     (case sg of (s, g) \<Rightarrow>
        (case call of
           GenerateProposals outcome \<Rightarrow> (handleGenerateProposals canEdit task outcome s, g)
         | AddSubStep \<Rightarrow> handleAddSubStep gen canEdit (s, g)
         | UpdateSubStep subStepId updates \<Rightarrow> (handleUpdateSubStep canEdit subStepId updates s, g)
         | RemoveSubStep subStepId confirmed \<Rightarrow>
             (handleRemoveSubStep canEdit confirmed subStepId s, g)
         | AddActionItem subStepId \<Rightarrow> handleAddActionItem gen canEdit subStepId (s, g)
         | UpdateActionItem subStepId actionItemId updates \<Rightarrow>
             (handleUpdateActionItem canEdit subStepId actionItemId updates s, g)
         | RemoveActionItem subStepId actionItemId confirmed \<Rightarrow>
             (handleRemoveActionItem canEdit confirmed subStepId actionItemId s, g)
         | AttachmentChange files0 result \<Rightarrow>
             (case handleAttachmentChange canEdit files0 s of
                (s1, alerts, None) \<Rightarrow> (s1, g)
              | (s1, alerts, Some pending) \<Rightarrow> readerOnload gen pending result (s1, g))
         | RemoveAttachment attachmentId \<Rightarrow> (handleRemoveAttachment canEdit attachmentId s, g)
         | SubStepDragStart subStepId \<Rightarrow> (handleSubStepDragStart canEdit subStepId s, g)
         | CanvasDrop canvasRef event \<Rightarrow> (handleCanvasDrop canEdit canvasRef event s, g)))"

definition invokeAll ::
  "'g idgen \<Rightarrow> bool \<Rightarrow> ProjectTask \<Rightarrow> ModalState \<times> 'g \<Rightarrow> Invocation list \<Rightarrow> ModalState \<times> 'g" where
  "invokeAll gen canEdit task sg calls = foldl (invoke gen canEdit task) sg calls"

text \<open>
  The effect \<^verbatim>\<open>useEffect(() => setLocalDetails(extendedDetails), [extendedDetails])\<close>:
  when the task's details change, the buffer is replaced by them.
\<close>

definition syncLocalDetails :: "ProjectTask \<Rightarrow> ModalState \<Rightarrow> ModalState" where
  "syncLocalDetails task s = s\<lparr>localDetails := extendedDetails task\<rparr>"

section \<open>Notions used to state the properties\<close>

text \<open>The identifier returned by call number \<open>i\<close> (from 0) of the generator with one prefix.\<close>

definition nthId :: "'g idgen \<Rightarrow> string \<Rightarrow> 'g \<Rightarrow> nat \<Rightarrow> string" where
  "nthId gen prefix g i = fst (gen prefix (((\<lambda>h. snd (gen prefix h)) ^^ i) g))"

text \<open>
  The sub-steps that the proposals stand for, as values: proposal \<open>i\<close> with the \<open>i\<close>-th
  generated identifier; and the combined list, the buffer's sub-steps followed by them.
  Neither refers to the handler.
\<close>

definition newSubStepsOf :: "'g idgen \<Rightarrow> Additions \<Rightarrow> 'g \<Rightarrow> SubStep list" where
  "newSubStepsOf gen additions g =
     map (\<lambda>i. proposedSubStep (nthId gen ''substep'' g i) (newSubSteps additions ! i) i)
       [0..<length (newSubSteps additions)]"

definition combinedSubSteps :: "'g idgen \<Rightarrow> Additions \<Rightarrow> ModalState \<Rightarrow> 'g \<Rightarrow> SubStep list" where
  "combinedSubSteps gen additions s g = subSteps (localDetails s) @ newSubStepsOf gen additions g"

text \<open>
  Position \<open>j\<close> holds the first sub-step of the list with id \<open>t\<close>; the requests whose
  target is the sub-step at position \<open>j\<close> in this sense; and what the item built for a
  request looks like.
\<close>

definition firstWithId :: "string \<Rightarrow> SubStep list \<Rightarrow> nat \<Rightarrow> bool" where
  "firstWithId t sss j \<longleftrightarrow>
     j < length sss \<and> ss_id (sss ! j) = t \<and> t \<notin> ss_id ` set (take j sss)"

definition requestsFor :: "SubStep list \<Rightarrow> NewActionItem list \<Rightarrow> nat \<Rightarrow> NewActionItem list" where
  "requestsFor base reqs j = filter (\<lambda>r. firstWithId (targetSubStepId r) base j) reqs"

definition proposedItem :: "ActionItem \<Rightarrow> NewActionItem \<Rightarrow> bool" where
  "proposedItem a r \<longleftrightarrow> ai_text a = nai_title r \<and> \<not> ai_completed a \<and> ai_completedDate a = None"

text \<open>
  The store after one round of the map over the proposals: a new empty array, then a new
  object that refers to it.
\<close>

definition allocProposed :: "string \<Rightarrow> Proposal \<Rightarrow> nat \<Rightarrow> Store \<Rightarrow> Store" where
  "allocProposed i p index st =
     st\<lparr>arrays := arrays st @ [[]],
        objects := objects st @ [proposedObject i p index (length (arrays st))]\<rparr>"

section \<open>Example inputs\<close>

text \<open>A generator that counts its calls: call number \<open>n\<close> of it returns the prefix, a dash
  and \<open>n\<close> letters.\<close>

definition counterGen :: "nat idgen" where
  "counterGen prefix n = (prefix @ ''-'' @ replicate (Suc n) CHR ''i'', Suc n)"

definition exampleTask :: ProjectTask where
  "exampleTask = \<lparr>task_id = ''task-1'', task_title = ''Plan'', task_description = ''Write the plan'',
     task_extendedDetails = None\<rparr>"

definition exampleSubStep :: SubStep where
  "exampleSubStep = \<lparr>ss_id = ''a'', ss_text = ''old'', ss_notes = None,
     ss_position = Some \<lparr>pos_x = 10, pos_y = 20\<rparr>, ss_actionItems = None, ss_attachments = None\<rparr>"

definition otherSubStep :: SubStep where
  "otherSubStep = \<lparr>ss_id = ''b'', ss_text = ''other'', ss_notes = Some ''n'',
     ss_position = None, ss_actionItems = Some [], ss_attachments = None\<rparr>"

definition exampleDetails :: Details where
  "exampleDetails = defaultDetails\<lparr>subSteps := [exampleSubStep], resources := ''two people''\<rparr>"

definition exampleStoredTask :: ProjectTask where
  "exampleStoredTask = exampleTask\<lparr>task_extendedDetails := Some exampleDetails\<rparr>"

definition exampleState :: ModalState where
  "exampleState = initialState exampleStoredTask"

definition twoStepState :: ModalState where
  "twoStepState =
     exampleState\<lparr>localDetails := exampleDetails\<lparr>subSteps := [exampleSubStep, otherSubStep]\<rparr>\<rparr>"

definition draggingState :: ModalState where
  "draggingState = twoStepState\<lparr>draggedSubStep := Some ''a''\<rparr>"

definition emptyIdState :: ModalState where
  "emptyIdState =
     exampleState\<lparr>localDetails := exampleDetails\<lparr>subSteps := [exampleSubStep\<lparr>ss_id := []\<rparr>]\<rparr>,
       draggedSubStep := Some []\<rparr>"

definition renameUpdate :: PartialSubStep where
  "renameUpdate = \<lparr>u_id = None, u_text = Some ''new'', u_notes = None, u_position = None,
     u_actionItems = None, u_attachments = None\<rparr>"

definition exampleRect :: DOMRect where
  "exampleRect = \<lparr>rect_left = 40, rect_top = 120\<rparr>"

definition exampleDrop :: DragEvent where
  "exampleDrop = \<lparr>clientX = 500, clientY = 400\<rparr>"

definition exampleProposals :: "Proposal list" where
  "exampleProposals = [\<lparr>prop_title = ''Draft'', prop_description = ''Write a draft''\<rparr>]"

definition exampleAdditions :: Additions where
  "exampleAdditions =
     \<lparr>newSubSteps = [\<lparr>prop_title = ''p0'', prop_description = ''d0''\<rparr>,
                     \<lparr>prop_title = ''p1'', prop_description = ''d1''\<rparr>,
                     \<lparr>prop_title = ''p2'', prop_description = ''d2''\<rparr>,
                     \<lparr>prop_title = ''p3'', prop_description = ''d3''\<rparr>],
      newActionItems = [\<lparr>targetSubStepId = ''a'', nai_title = ''first''\<rparr>,
                        \<lparr>targetSubStepId = ''zz'', nai_title = ''lost''\<rparr>,
                        \<lparr>targetSubStepId = ''b'', nai_title = ''for b''\<rparr>,
                        \<lparr>targetSubStepId = ''a'', nai_title = ''second''\<rparr>]\<rparr>"

text \<open>
  The store behind the two sub-steps of \<open>twoStepState\<close>: the first object has no array,
  the second refers to the empty array at address 0. The buffer lists both objects.
\<close>

definition exampleStore :: Store where
  "exampleStore =
     \<lparr>objects =
        [\<lparr>so_id = ''a'', so_text = ''old'', so_notes = None,
          so_position = Some \<lparr>pos_x = 10, pos_y = 20\<rparr>, so_actionItems = None,
          so_attachments = None\<rparr>,
         \<lparr>so_id = ''b'', so_text = ''other'', so_notes = Some ''n'', so_position = None,
          so_actionItems = Some 0, so_attachments = None\<rparr>],
      arrays = [[]]\<rparr>"

definition exampleRefs :: "addr list" where
  "exampleRefs = [0, 1]"

definition exampleDeck :: SlideDeck where
  "exampleDeck = \<lparr>slides = []\<rparr>"

definition stateWithDeck :: ModalState where
  "stateWithDeck =
     exampleState\<lparr>localDetails := exampleDetails\<lparr>reportDeck := Some exampleDeck\<rparr>\<rparr>"

definition bigFile :: File where
  "bigFile = \<lparr>file_name = ''big.pdf'', file_type = ''application/pdf'', file_size = 5242881\<rparr>"

definition limitFile :: File where
  "limitFile = \<lparr>file_name = ''limit.png'', file_type = ''image/png'', file_size = 5242880\<rparr>"

definition pickedState :: ModalState where
  "pickedState = exampleState\<lparr>fileInputValue := ''C:/fakepath/file''\<rparr>"

definition firstFile :: File where
  "firstFile = \<lparr>file_name = ''one.png'', file_type = ''image/png'', file_size = 2048\<rparr>"

definition secondFile :: File where
  "secondFile = \<lparr>file_name = ''two.txt'', file_type = ''text/plain'', file_size = 16\<rparr>"

text \<open>The store of the example after the new sub-steps are built, and after the loop; and the
  sub-step list then read through the buffer's addresses.\<close>

definition exampleStore1 :: Store where
  "exampleStore1 =
     \<lparr>objects = objects exampleStore @
        [proposedObject ''substep-i'' \<lparr>prop_title = ''p0'', prop_description = ''d0''\<rparr> 0 1,
         proposedObject ''substep-ii'' \<lparr>prop_title = ''p1'', prop_description = ''d1''\<rparr> 1 2,
         proposedObject ''substep-iii'' \<lparr>prop_title = ''p2'', prop_description = ''d2''\<rparr> 2 3,
         proposedObject ''substep-iiii'' \<lparr>prop_title = ''p3'', prop_description = ''d3''\<rparr> 3 4],
      arrays = [[], [], [], [], []]\<rparr>"

definition exampleStore2 :: Store where
  "exampleStore2 =
     \<lparr>objects = (objects exampleStore1)[0 := (objects exampleStore1 ! 0)\<lparr>so_actionItems := Some 5\<rparr>],
      arrays =
        [[\<lparr>ai_id = ''action-iiiiii'', ai_text = ''for b'', ai_completed = False,
           ai_completedDate = None\<rparr>],
         [], [], [], [],
         [\<lparr>ai_id = ''action-iiiii'', ai_text = ''first'', ai_completed = False,
           ai_completedDate = None\<rparr>,
          \<lparr>ai_id = ''action-iiiiiii'', ai_text = ''second'', ai_completed = False,
           ai_completedDate = None\<rparr>]]\<rparr>"

definition exampleResult :: "SubStep list" where
  "exampleResult =
     [exampleSubStep\<lparr>ss_actionItems := Some
        [\<lparr>ai_id = ''action-iiiii'', ai_text = ''first'', ai_completed = False,
          ai_completedDate = None\<rparr>,
         \<lparr>ai_id = ''action-iiiiiii'', ai_text = ''second'', ai_completed = False,
          ai_completedDate = None\<rparr>]\<rparr>,
      otherSubStep\<lparr>ss_actionItems := Some
        [\<lparr>ai_id = ''action-iiiiii'', ai_text = ''for b'', ai_completed = False,
          ai_completedDate = None\<rparr>]\<rparr>,
      \<lparr>ss_id = ''substep-i'', ss_text = ''p0'', ss_notes = Some ''d0'',
       ss_position = Some \<lparr>pos_x = 50, pos_y = 50\<rparr>,
       ss_actionItems = Some [], ss_attachments = Some []\<rparr>,
      \<lparr>ss_id = ''substep-ii'', ss_text = ''p1'', ss_notes = Some ''d1'',
       ss_position = Some \<lparr>pos_x = 350, pos_y = 50\<rparr>,
       ss_actionItems = Some [], ss_attachments = Some []\<rparr>,
      \<lparr>ss_id = ''substep-iii'', ss_text = ''p2'', ss_notes = Some ''d2'',
       ss_position = Some \<lparr>pos_x = 650, pos_y = 50\<rparr>,
       ss_actionItems = Some [], ss_attachments = Some []\<rparr>,
      \<lparr>ss_id = ''substep-iiii'', ss_text = ''p3'', ss_notes = Some ''d3'',
       ss_position = Some \<lparr>pos_x = 50, pos_y = 250\<rparr>,
       ss_actionItems = Some [], ss_attachments = Some []\<rparr>]"

text \<open>A state whose buffer differs from the task's details, and the two reads started by
  choosing two files one after the other from a state without attachments.\<close>

definition editedState :: ModalState where
  "editedState = (initialState exampleTask)\<lparr>localDetails := exampleDetails\<rparr>"

definition firstRead :: PendingRead where
  "firstRead = \<lparr>pr_file = firstFile, pr_attachments = Some []\<rparr>"

definition secondRead :: PendingRead where
  "secondRead = \<lparr>pr_file = secondFile, pr_attachments = Some []\<rparr>"

section \<open>Properties\<close>

subsection \<open>Updating the buffer\<close>

lemma update_subSteps:
  "updateLocalDetails (onlySubSteps v) s = s\<lparr>localDetails := (localDetails s)\<lparr>subSteps := v\<rparr>\<rparr>"
  by (simp add: updateLocalDetails_def spreadDetails_def onlySubSteps_def noUpdates_def orElse_def)

lemma update_same_subSteps:
  "updateLocalDetails (onlySubSteps (subSteps (localDetails s))) s = s"
  by (simp add: update_subSteps)

lemma update_attachments:
  "updateLocalDetails (onlyAttachments v) s =
     s\<lparr>localDetails := (localDetails s)\<lparr>attachments := Some v\<rparr>\<rparr>"
  by (simp add: updateLocalDetails_def spreadDetails_def onlyAttachments_def noUpdates_def orElse_def)

lemma update_reportDeck:
  "updateLocalDetails (onlyReportDeck v) s =
     s\<lparr>localDetails := (localDetails s)\<lparr>reportDeck := Some v\<rparr>\<rparr>"
  by (simp add: updateLocalDetails_def spreadDetails_def onlyReportDeck_def noUpdates_def orElse_def)

lemma spread_onlyPosition: "spreadSubStep ss (onlyPosition p) = ss\<lparr>ss_position := Some p\<rparr>"
  by (simp add: spreadSubStep_def onlyPosition_def orElse_def)

lemma map_no_match:
  "subStepId \<notin> ss_id ` set sss \<Longrightarrow>
   map (\<lambda>ss. if ss_id ss = subStepId then f ss else ss) sss = sss"
  by (induction sss) auto

lemma filter_no_match:
  "subStepId \<notin> ss_id ` set sss \<Longrightarrow> filter (\<lambda>ss. ss_id ss \<noteq> subStepId) sss = sss"
  by (induction sss) auto

lemma max_bytes: "MAX_FILE_SIZE_BYTES = 5242880"
  by (simp add: MAX_FILE_SIZE_BYTES_def MAX_FILE_SIZE_MB_def)

subsection \<open>Debounced autosave\<close>

text \<open>
  Claim C1, as amended. Whenever the debounce timer that the autosave effect set for a
  buffer state fires, the effect calls \<^verbatim>\<open>onUpdateTask\<close>, with the task's id and the whole
  local buffer of the render that set the timer, if and only if the JSON serialization of
  that buffer differs from the serialization of the persisted details; when the two are
  equal it makes no call. The serialization is whatever function \<open>stringify\<close> is. As the
  claim was stated, for every buffer state whether or not its timer fires, it fails: see
  the run after the theorem.
\<close>

theorem autosave_saves_iff_changed:
  "(autosaveTimeout stringify taskId local extended = [(taskId, local)]
      \<longleftrightarrow> stringify local \<noteq> stringify extended)
   \<and> (stringify local = stringify extended \<longrightarrow>
        autosaveTimeout stringify taskId local extended = [])
   \<and> autosaveRun stringify timer [(task, s, EffectRuns), (task', s', TimerFires)] =
      (autosaveTimeout stringify (task_id task) (localDetails s) (extendedDetails task), None)"
  by (simp add: autosaveTimeout_def saveChanges_def autosaveStep_def)

theorem autosave_saves_iff_changed_witness:
  "resources exampleDetails \<noteq> resources defaultDetails
   \<and> autosaveRun resources None
        [(exampleTask, editedState, EffectRuns), (exampleTask, editedState, TimerFires)] =
       ([(''task-1'', exampleDetails)], None)
   \<and> resources exampleDetails = resources exampleDetails
   \<and> autosaveRun resources None
        [(exampleStoredTask, exampleState, EffectRuns), (exampleStoredTask, exampleState, TimerFires)] =
       ([], None)"
  using autosave_saves_iff_changed [of resources "''task-1''" exampleDetails defaultDetails
      None exampleTask editedState exampleTask editedState]
    autosave_saves_iff_changed [of resources "''task-1''" exampleDetails exampleDetails
      None exampleStoredTask exampleState exampleStoredTask exampleState]
  by (simp add: exampleDetails_def defaultDetails_def editedState_def exampleTask_def
      exampleState_def exampleStoredTask_def initialState_def extendedDetails_def)

text \<open>
  The buffer differs from the persisted details, the effect runs, and the modal is
  unmounted before the timer fires: the cleanup clears the timer and no call is made.
\<close>

theorem autosave_saves_iff_changed_counterexample:
  "resources (localDetails editedState) \<noteq> resources (extendedDetails exampleTask)
   \<and> autosaveRun resources None
        [(exampleTask, editedState, EffectRuns), (exampleTask, editedState, Unmount)] = ([], None)"
  by (simp add: autosaveStep_def editedState_def exampleDetails_def defaultDetails_def
      extendedDetails_def exampleTask_def)

text \<open>
  The same for any state, and for a timer replaced by a later run of the effect: only the
  later render's buffer is compared and saved.
\<close>

lemma autosave_cleared:
  "autosaveRun stringify timer [(task, s, EffectRuns), (task', s', Unmount)] = ([], None)"
  by (simp add: autosaveStep_def)

lemma autosave_superseded:
  "autosaveRun stringify timer
     [(task, s, EffectRuns), (task', s', EffectRuns), (task'', s'', TimerFires)] =
   (autosaveTimeout stringify (task_id task') (localDetails s') (extendedDetails task'), None)"
  by (simp add: autosaveStep_def)

subsection \<open>Dropping a sub-step on the canvas\<close>

text \<open>
  Claim C2, as amended. When \<^verbatim>\<open>canEdit\<close> is true, the canvas is mounted and the dragged
  id is a non-empty string, \<open>handleCanvasDrop\<close> sets the position of every sub-step with
  that id to \<open>(clientX - rect.left - 100, clientY - rect.top - 50)\<close>; every other field
  of those sub-steps, every other sub-step and every other field of the local details stay
  as they were, and the dragged id is reset. As the claim was stated, without the two
  conditions, it fails: see the instances after the theorem.
\<close>

theorem canvasDrop_position:
  assumes "canEdit" and "draggedSubStep s = Some dragged" and "dragged \<noteq> []"
  shows "handleCanvasDrop canEdit (Some rect) event s =
     s\<lparr>localDetails := (localDetails s)\<lparr>subSteps :=
          map (\<lambda>ss. if ss_id ss = dragged
                     then ss\<lparr>ss_position := Some \<lparr>pos_x = clientX event - rect_left rect - 100,
                                                     pos_y = clientY event - rect_top rect - 50\<rparr>\<rparr>
                     else ss)
            (subSteps (localDetails s))\<rparr>,
        draggedSubStep := None\<rparr>"
  using assms
  by (simp add: handleCanvasDrop_def falsy_def handleUpdateSubStep_def spread_onlyPosition
      update_subSteps)

theorem canvasDrop_position_witness:
  "subSteps (localDetails (handleCanvasDrop True (Some exampleRect) exampleDrop draggingState)) =
     [exampleSubStep\<lparr>ss_position := Some \<lparr>pos_x = 360, pos_y = 230\<rparr>\<rparr>, otherSubStep]"
  using canvasDrop_position [of True draggingState "''a''" exampleRect exampleDrop]
  by (simp add: draggingState_def twoStepState_def exampleSubStep_def otherSubStep_def
      exampleRect_def exampleDrop_def)

text \<open>
  With \<^verbatim>\<open>canEdit\<close> false the drop of a sub-step whose id is in the buffer changes nothing,
  so its position is not the one computed from the event; and a dragged sub-step whose id
  is the empty string is not moved even when \<^verbatim>\<open>canEdit\<close> is true, because
  \<^verbatim>\<open>!draggedSubStep\<close> holds for the empty string.
\<close>

theorem canvasDrop_position_counterexample:
  "draggedSubStep draggingState = Some ''a''
   \<and> ''a'' \<in> ss_id ` set (subSteps (localDetails draggingState))
   \<and> handleCanvasDrop False (Some exampleRect) exampleDrop draggingState = draggingState
   \<and> subSteps (localDetails draggingState) = [exampleSubStep, otherSubStep]
   \<and> ss_position exampleSubStep \<noteq> Some \<lparr>pos_x = 500 - 40 - 100, pos_y = 400 - 120 - 50\<rparr>
   \<and> draggedSubStep emptyIdState = Some []
   \<and> [] \<in> ss_id ` set (subSteps (localDetails emptyIdState))
   \<and> handleCanvasDrop True (Some exampleRect) exampleDrop emptyIdState = emptyIdState"
  by (simp add: handleCanvasDrop_def falsy_def draggingState_def twoStepState_def
      emptyIdState_def exampleSubStep_def)

subsection \<open>Removing and updating sub-steps\<close>

text \<open>
  Claim C3, as amended. When \<^verbatim>\<open>canEdit\<close> is true: \<open>handleRemoveSubStep\<close>, once the user
  has confirmed, leaves exactly the sub-steps whose id differs from the given one, in
  their order; \<open>handleUpdateSubStep\<close> merges the partial update into every sub-step with
  the given id and leaves every other sub-step as it was; and for an id that no sub-step
  has, both leave the state as it was. As the claim was stated, for \<open>handleUpdateSubStep\<close>
  without the condition on \<^verbatim>\<open>canEdit\<close>, it fails: see the instance after the theorem.
\<close>

theorem subStep_crud:
  assumes "canEdit"
  shows "localDetails (handleRemoveSubStep canEdit True subStepId s) =
           (localDetails s)\<lparr>subSteps :=
              filter (\<lambda>ss. ss_id ss \<noteq> subStepId) (subSteps (localDetails s))\<rparr>
    \<and> localDetails (handleUpdateSubStep canEdit subStepId updates s) =
           (localDetails s)\<lparr>subSteps :=
              map (\<lambda>ss. if ss_id ss = subStepId then spreadSubStep ss updates else ss)
                (subSteps (localDetails s))\<rparr>
    \<and> (subStepId \<notin> ss_id ` set (subSteps (localDetails s)) \<longrightarrow>
          handleRemoveSubStep canEdit True subStepId s = s
        \<and> handleUpdateSubStep canEdit subStepId updates s = s)"
  using assms
  by (simp add: handleRemoveSubStep_def handleUpdateSubStep_def update_subSteps
      map_no_match filter_no_match)

theorem subStep_crud_witness:
  "subSteps (localDetails (handleRemoveSubStep True True ''a'' twoStepState)) = [otherSubStep]
   \<and> subSteps (localDetails (handleUpdateSubStep True ''a'' renameUpdate twoStepState)) =
       [exampleSubStep\<lparr>ss_text := ''new''\<rparr>, otherSubStep]
   \<and> ''zz'' \<notin> ss_id ` set (subSteps (localDetails twoStepState))
   \<and> handleRemoveSubStep True True ''zz'' twoStepState = twoStepState
   \<and> handleUpdateSubStep True ''zz'' renameUpdate twoStepState = twoStepState"
  using subStep_crud [of True "''a''" twoStepState renameUpdate]
    subStep_crud [of True "''zz''" twoStepState renameUpdate]
  by (simp add: twoStepState_def exampleSubStep_def otherSubStep_def spreadSubStep_def
      renameUpdate_def orElse_def)

text \<open>
  With \<^verbatim>\<open>canEdit\<close> false, \<open>handleUpdateSubStep\<close> does not apply the update to the
  sub-step that has the given id.
\<close>

theorem subStep_crud_counterexample:
  "ss_id exampleSubStep = ''a''
   \<and> subSteps (localDetails twoStepState) = [exampleSubStep, otherSubStep]
   \<and> subSteps (localDetails (handleUpdateSubStep False ''a'' renameUpdate twoStepState)) =
       [exampleSubStep, otherSubStep]
   \<and> spreadSubStep exampleSubStep renameUpdate \<noteq> exampleSubStep"
  by (simp add: handleUpdateSubStep_def twoStepState_def exampleSubStep_def spreadSubStep_def
      renameUpdate_def orElse_def)

subsection \<open>Confirming proposals\<close>

text \<open>What is read through the store, and the first sub-step with a given id.\<close>

lemma view_id: "ss_id (viewSubStep st a) = so_id (objects st ! a)"
  by (simp add: viewSubStep_def)

lemma ids_view: "map ss_id (viewSubSteps st refs) = map (\<lambda>a. so_id (objects st ! a)) refs"
  by (simp add: viewSubSteps_def view_id)

lemma take_mem: "j < k \<Longrightarrow> j < length xs \<Longrightarrow> xs ! j \<in> set (take k xs)"
  by (auto simp: in_set_conv_nth intro!: exI [of _ j])

lemma firstWithId_before:
  assumes "firstWithId t sss k" and "j < k"
  shows "ss_id (sss ! j) \<noteq> t"
proof
  assume e: "ss_id (sss ! j) = t"
  from assms have "j < length sss" by (simp add: firstWithId_def)
  with assms(2) have "sss ! j \<in> set (take k sss)" by (rule take_mem)
  then have "ss_id (sss ! j) \<in> ss_id ` set (take k sss)" by (rule imageI)
  with e assms(1) show False by (simp add: firstWithId_def)
qed

lemma firstWithId_unique:
  assumes "firstWithId t sss j" and "firstWithId t sss k"
  shows "j = k"
proof (rule ccontr)
  assume "j \<noteq> k"
  then consider "j < k" | "k < j" by linarith
  then show False
  proof cases
    case 1
    from firstWithId_before [OF assms(2) 1] assms(1) show False by (simp add: firstWithId_def)
  next
    case 2
    from firstWithId_before [OF assms(1) 2] assms(2) show False by (simp add: firstWithId_def)
  qed
qed

lemma firstWithId_ex:
  "t \<in> ss_id ` set sss \<Longrightarrow> \<exists>j. firstWithId t sss j"
proof (induction sss)
  case Nil
  then show ?case by simp
next
  case (Cons a as)
  show ?case
  proof (cases "ss_id a = t")
    case True
    then have "firstWithId t (a # as) 0" by (simp add: firstWithId_def)
    then show ?thesis ..
  next
    case False
    with Cons.prems have "t \<in> ss_id ` set as" by auto
    from Cons.IH [OF this] obtain j where "firstWithId t as j" ..
    with False have "firstWithId t (a # as) (Suc j)" by (auto simp: firstWithId_def)
    then show ?thesis ..
  qed
qed

lemma firstWithId_mem: "firstWithId t sss j \<Longrightarrow> t \<in> ss_id ` set sss"
  by (auto simp: firstWithId_def)

lemma firstWithId_cong:
  assumes "map ss_id xs = map ss_id ys"
  shows "firstWithId t xs j = firstWithId t ys j"
proof -
  from assms have len: "length xs = length ys" by (metis length_map)
  have nth: "ss_id (xs ! i) = ss_id (ys ! i)" if "i < length xs" for i
    using that assms len by (metis nth_map)
  have "ss_id ` set (take j xs) = ss_id ` set (take j ys)"
    using assms by (metis set_map take_map)
  with len nth show ?thesis by (auto simp: firstWithId_def)
qed

lemma find_first:
  assumes "firstWithId t (viewSubSteps st refs) k"
  shows "find (\<lambda>a. so_id (objects st ! a) = t) refs = Some (refs ! k)" and "k < length refs"
proof -
  from assms have k: "k < length refs"
    by (simp add: firstWithId_def viewSubSteps_def)
  from assms k have idk: "so_id (objects st ! (refs ! k)) = t"
    by (simp add: firstWithId_def viewSubSteps_def view_id)
  from assms have no: "t \<notin> ss_id ` set (take k (viewSubSteps st refs))"
    by (simp add: firstWithId_def)
  have "so_id (objects st ! (refs ! j)) \<noteq> t" if "j < k" for j
  proof -
    from firstWithId_before [OF assms that] have "ss_id (viewSubSteps st refs ! j) \<noteq> t" .
    with that k show ?thesis by (simp add: viewSubSteps_def view_id)
  qed
  with k idk show "find (\<lambda>a. so_id (objects st ! a) = t) refs = Some (refs ! k)"
    unfolding find_Some_iff by blast
  from k show "k < length refs" .
qed

lemma find_none:
  assumes "t \<notin> ss_id ` set (viewSubSteps st refs)"
  shows "find (\<lambda>a. so_id (objects st ! a) = t) refs = None"
proof -
  have "so_id (objects st ! a) \<noteq> t" if "a \<in> set refs" for a
  proof
    assume "so_id (objects st ! a) = t"
    with that have "t \<in> ss_id ` set (viewSubSteps st refs)"
      by (force simp: viewSubSteps_def view_id)
    with assms show False ..
  qed
  then show ?thesis unfolding find_None_iff by blast
qed

lemma push_unmatched:
  assumes "targetSubStepId r \<notin> ss_id ` set (viewSubSteps st refs)"
  shows "pushProposedItem gen refs (st, g) r = (st, g)"
  using find_none [OF assms] by (simp add: pushProposedItem_def)

lemma wellFormed_bound: "wellFormed st refs \<Longrightarrow> a \<in> set refs \<Longrightarrow> a < length (objects st)"
  by (simp add: wellFormed_def)

lemma wellFormed_array:
  "wellFormed st refs \<Longrightarrow> a \<in> set refs \<Longrightarrow> so_actionItems (objects st ! a) = Some arr \<Longrightarrow>
   arr < length (arrays st)"
  by (auto simp: wellFormed_def split: option.splits)

lemma wellFormed_unshared:
  "wellFormed st refs \<Longrightarrow> a \<in> set refs \<Longrightarrow> b \<in> set refs \<Longrightarrow>
   so_actionItems (objects st ! a) = Some arr \<Longrightarrow> so_actionItems (objects st ! b) = Some arr \<Longrightarrow>
   a = b"
  unfolding wellFormed_def by (metis option.distinct(1))

lemma wellFormed_distinct: "wellFormed st refs \<Longrightarrow> distinct refs"
  by (simp add: wellFormed_def)

lemma push_matched:
  assumes wf: "wellFormed st refs"
    and f: "firstWithId (targetSubStepId r) (viewSubSteps st refs) k"
  shows "\<exists>new. proposedItem new r
     \<and> viewSubSteps (fst (pushProposedItem gen refs (st, g) r)) refs =
         (viewSubSteps st refs)[k := (viewSubSteps st refs ! k)
            \<lparr>ss_actionItems := Some (itemsOf (viewSubSteps st refs ! k) @ [new])\<rparr>]
     \<and> wellFormed (fst (pushProposedItem gen refs (st, g) r)) refs"
proof -
  define a where "a = refs ! k"
  define new where "new = \<lparr>ai_id = fst (gen ''action'' g), ai_text = nai_title r,
     ai_completed = False, ai_completedDate = None\<rparr>"
  from find_first [OF f] have fnd: "find (\<lambda>a. so_id (objects st ! a) = targetSubStepId r) refs = Some a"
    and k: "k < length refs" by (simp_all add: a_def)
  from k have a_in: "a \<in> set refs" by (simp add: a_def)
  note a_lt = wellFormed_bound [OF wf a_in]
  note dist = wellFormed_distinct [OF wf]
  have pn: "proposedItem new r" by (simp add: proposedItem_def new_def)
  have idx: "refs ! j = a \<longleftrightarrow> j = k" if "j < length refs" for j
    using that k dist by (simp add: a_def nth_eq_iff_index_eq)
  let ?st' = "fst (pushProposedItem gen refs (st, g) r)"
  have main: "viewSubStep ?st' a =
        (viewSubStep st a)\<lparr>ss_actionItems := Some (itemsOf (viewSubStep st a) @ [new])\<rparr>
      \<and> (\<forall>b \<in> set refs. b \<noteq> a \<longrightarrow> viewSubStep ?st' b = viewSubStep st b)
      \<and> wellFormed ?st' refs"
  proof (cases "so_actionItems (objects st ! a)")
    case (Some arr)
    note arr_lt = wellFormed_array [OF wf a_in Some]
    from fnd Some have st': "?st' = st\<lparr>arrays := (arrays st)[arr := arrays st ! arr @ [new]]\<rparr>"
      by (simp add: pushProposedItem_def new_def split: prod.split)
    have va: "viewSubStep ?st' a =
        (viewSubStep st a)\<lparr>ss_actionItems := Some (itemsOf (viewSubStep st a) @ [new])\<rparr>"
      using Some arr_lt by (simp add: st' viewSubStep_def itemsOf_def orElse_def)
    have vb: "viewSubStep ?st' b = viewSubStep st b" if b: "b \<in> set refs" "b \<noteq> a" for b
    proof (cases "so_actionItems (objects st ! b)")
      case None
      then show ?thesis by (simp add: st' viewSubStep_def)
    next
      case (Some arr')
      with wellFormed_unshared [OF wf a_in b(1) \<open>so_actionItems (objects st ! a) = Some arr\<close>] b(2)
      have "arr' \<noteq> arr" by auto
      with Some show ?thesis by (simp add: st' viewSubStep_def)
    qed
    have "wellFormed ?st' refs"
      using wf unfolding wellFormed_def st' by (auto split: option.splits)
    with va vb show ?thesis by blast
  next
    case None
    let ?n = "length (arrays st)"
    from fnd None have st': "?st' =
        st\<lparr>arrays := arrays st @ [[new]],
           objects := (objects st)[a := (objects st ! a)\<lparr>so_actionItems := Some ?n\<rparr>]\<rparr>"
      by (simp add: pushProposedItem_def newArray_def new_def split: prod.split)
    have va: "viewSubStep ?st' a =
        (viewSubStep st a)\<lparr>ss_actionItems := Some (itemsOf (viewSubStep st a) @ [new])\<rparr>"
      using None a_lt by (simp add: st' viewSubStep_def itemsOf_def orElse_def)
    have ob: "objects ?st' ! b = objects st ! b" if "b \<noteq> a" for b
      using that by (simp add: st')
    have vb: "viewSubStep ?st' b = viewSubStep st b" if b: "b \<in> set refs" "b \<noteq> a" for b
    proof (cases "so_actionItems (objects st ! b)")
      case None
      with b(2) show ?thesis by (simp add: st' viewSubStep_def)
    next
      case (Some arr')
      from wellFormed_array [OF wf b(1) Some] have "arr' < ?n" .
      with Some b(2) show ?thesis by (simp add: st' viewSubStep_def nth_append)
    qed
    have w1: "\<forall>b \<in> set refs. b < length (objects ?st')"
      using wf by (simp add: st' wellFormed_def)
    have w2: "\<forall>b \<in> set refs. case so_actionItems (objects ?st' ! b) of
                            None \<Rightarrow> True | Some arr \<Rightarrow> arr < length (arrays ?st')"
    proof
      fix b assume b: "b \<in> set refs"
      show "case so_actionItems (objects ?st' ! b) of
                            None \<Rightarrow> True | Some arr \<Rightarrow> arr < length (arrays ?st')"
      proof (cases "b = a")
        case True
        with a_lt show ?thesis by (simp add: st')
      next
        case False
        then show ?thesis
          using wellFormed_array [OF wf b] by (auto simp: st' split: option.splits)
      qed
    qed
    have refOf: "so_actionItems (objects ?st' ! b) =
        (if b = a then Some ?n else so_actionItems (objects st ! b))" if "b \<in> set refs" for b
      using a_lt by (simp add: st')
    have w3: "\<forall>b \<in> set refs. \<forall>c \<in> set refs.
           so_actionItems (objects ?st' ! b) \<noteq> None
           \<and> so_actionItems (objects ?st' ! b) = so_actionItems (objects ?st' ! c) \<longrightarrow> b = c"
    proof (intro ballI impI)
      fix b c assume b: "b \<in> set refs" and c: "c \<in> set refs"
        and e: "so_actionItems (objects ?st' ! b) \<noteq> None
           \<and> so_actionItems (objects ?st' ! b) = so_actionItems (objects ?st' ! c)"
      have fresh: "so_actionItems (objects st ! d) \<noteq> Some ?n" if "d \<in> set refs" for d
        using wellFormed_array [OF wf that, of ?n] by auto
      show "b = c"
      proof (cases "b = a")
        case True
        with e refOf [OF b] refOf [OF c] fresh [OF c] show ?thesis by (auto split: if_splits)
      next
        case False
        show ?thesis
        proof (cases "c = a")
          case True
          with e refOf [OF b] refOf [OF c] fresh [OF b] False show ?thesis
            by (auto split: if_splits)
        next
          case cf: False
          from refOf [OF b] False
          have rb: "so_actionItems (objects ?st' ! b) = so_actionItems (objects st ! b)" by simp
          from refOf [OF c] cf
          have rc: "so_actionItems (objects ?st' ! c) = so_actionItems (objects st ! c)" by simp
          from e have e1: "so_actionItems (objects ?st' ! b) \<noteq> None"
            and e2: "so_actionItems (objects ?st' ! b) = so_actionItems (objects ?st' ! c)"
            by blast+
          from e1 have ne: "so_actionItems (objects st ! b) \<noteq> None" unfolding rb .
          from e2 have eq: "so_actionItems (objects st ! b) = so_actionItems (objects st ! c)"
            unfolding rb rc .
          from ne obtain arr where ab: "so_actionItems (objects st ! b) = Some arr" by blast
          with eq have ac: "so_actionItems (objects st ! c) = Some arr" by simp
          from wellFormed_unshared [OF wf b c ab ac] show ?thesis .
        qed
      qed
    qed
    from dist w1 w2 w3 have "wellFormed ?st' refs" unfolding wellFormed_def by blast
    with va vb show ?thesis by blast
  qed
  have "viewSubSteps ?st' refs =
         (viewSubSteps st refs)[k := (viewSubSteps st refs ! k)
            \<lparr>ss_actionItems := Some (itemsOf (viewSubSteps st refs ! k) @ [new])\<rparr>]"
  proof (rule nth_equalityI)
    show "length (viewSubSteps ?st' refs) = length ((viewSubSteps st refs)[k := (viewSubSteps st refs ! k)
            \<lparr>ss_actionItems := Some (itemsOf (viewSubSteps st refs ! k) @ [new])\<rparr>])"
      by (simp add: viewSubSteps_def)
  next
    fix j assume "j < length (viewSubSteps ?st' refs)"
    then have j: "j < length refs" by (simp add: viewSubSteps_def)
    show "viewSubSteps ?st' refs ! j = (viewSubSteps st refs)[k := (viewSubSteps st refs ! k)
            \<lparr>ss_actionItems := Some (itemsOf (viewSubSteps st refs ! k) @ [new])\<rparr>] ! j"
    proof (cases "j = k")
      case True
      with k main show ?thesis by (simp add: viewSubSteps_def a_def)
    next
      case False
      with idx [OF j] have "refs ! j \<noteq> a" by simp
      moreover from j have "refs ! j \<in> set refs" by simp
      ultimately have "viewSubStep ?st' (refs ! j) = viewSubStep st (refs ! j)"
        using main by blast
      with False j show ?thesis by (simp add: viewSubSteps_def)
    qed
  qed
  with pn main show ?thesis by blast
qed

lemma ids_update:
  "k < length v \<Longrightarrow> map ss_id (v[k := (v ! k)\<lparr>ss_actionItems := x\<rparr>]) = map ss_id v"
  by (simp add: map_update list_update_same_conv)

lemma fold_push_inv:
  assumes wf: "wellFormed st1 refs"
    and fold: "foldl (pushProposedItem gen refs) (st1, g1) reqs = (st2, g2)"
  shows "wellFormed st2 refs
     \<and> map ss_id (viewSubSteps st2 refs) = map ss_id (viewSubSteps st1 refs)
     \<and> (\<forall>j<length refs. \<exists>added.
        viewSubSteps st2 refs ! j =
          (if requestsFor (viewSubSteps st1 refs) reqs j = [] then viewSubSteps st1 refs ! j
           else (viewSubSteps st1 refs ! j)
                  \<lparr>ss_actionItems := Some (itemsOf (viewSubSteps st1 refs ! j) @ added)\<rparr>)
        \<and> list_all2 proposedItem added (requestsFor (viewSubSteps st1 refs) reqs j))"
  using fold
proof (induction reqs arbitrary: st2 g2 rule: rev_induct)
  case Nil
  with wf show ?case by (simp add: requestsFor_def)
next
  case (snoc r reqs)
  let ?base = "viewSubSteps st1 refs"
  obtain st0 g0 where f0: "foldl (pushProposedItem gen refs) (st1, g1) reqs = (st0, g0)"
    by (cases "foldl (pushProposedItem gen refs) (st1, g1) reqs")
  note ih = snoc.IH [OF f0]
  from ih have wf0: "wellFormed st0 refs"
    and ids0: "map ss_id (viewSubSteps st0 refs) = map ss_id ?base" by simp_all
  from snoc.prems f0 have step: "pushProposedItem gen refs (st0, g0) r = (st2, g2)" by simp
  have len: "length ?base = length refs" by (simp add: viewSubSteps_def)
  have set0: "ss_id ` set (viewSubSteps st0 refs) = ss_id ` set ?base"
    using ids0 by (metis set_map)
  show ?case
  proof (cases "targetSubStepId r \<in> ss_id ` set ?base")
    case False
    with set0 have "targetSubStepId r \<notin> ss_id ` set (viewSubSteps st0 refs)" by simp
    from push_unmatched [OF this, of gen g0] step have same: "st2 = st0" by simp
    from False have "\<not> firstWithId (targetSubStepId r) ?base j" for j
      using firstWithId_mem by blast
    then have "requestsFor ?base (reqs @ [r]) j = requestsFor ?base reqs j" for j
      by (simp add: requestsFor_def)
    with ih same show ?thesis by simp
  next
    case True
    from firstWithId_ex [OF True] obtain k where fk: "firstWithId (targetSubStepId r) ?base k" ..
    then have k: "k < length refs" using len by (simp add: firstWithId_def)
    from fk firstWithId_cong [OF ids0]
    have fk0: "firstWithId (targetSubStepId r) (viewSubSteps st0 refs) k" by simp
    let ?v0 = "viewSubSteps st0 refs"
    from push_matched [OF wf0 fk0, of gen g0] step obtain new where pn: "proposedItem new r"
      and v2: "viewSubSteps st2 refs =
         ?v0[k := (?v0 ! k)\<lparr>ss_actionItems := Some (itemsOf (?v0 ! k) @ [new])\<rparr>]"
      and wf2: "wellFormed st2 refs"
      by auto
    have len0: "length ?v0 = length refs" by (simp add: viewSubSteps_def)
    from v2 k len0 ids0 have ids2: "map ss_id (viewSubSteps st2 refs) = map ss_id ?base"
      by (simp add: ids_update)
    have other: "requestsFor ?base (reqs @ [r]) j = requestsFor ?base reqs j" if "j \<noteq> k" for j
      using that firstWithId_unique [OF fk] by (auto simp: requestsFor_def)
    have here: "requestsFor ?base (reqs @ [r]) k = requestsFor ?base reqs k @ [r]"
      using fk by (simp add: requestsFor_def)
    have "\<exists>added.
        viewSubSteps st2 refs ! j =
          (if requestsFor ?base (reqs @ [r]) j = [] then ?base ! j
           else (?base ! j)\<lparr>ss_actionItems := Some (itemsOf (?base ! j) @ added)\<rparr>)
        \<and> list_all2 proposedItem added (requestsFor ?base (reqs @ [r]) j)"
      if j: "j < length refs" for j
    proof (cases "j = k")
      case False
      with v2 j len0 have "viewSubSteps st2 refs ! j = ?v0 ! j" by simp
      with ih j other [OF False] show ?thesis by simp
    next
      case True
      from ih k obtain added where a:
        "?v0 ! k = (if requestsFor ?base reqs k = [] then ?base ! k
                 else (?base ! k)\<lparr>ss_actionItems := Some (itemsOf (?base ! k) @ added)\<rparr>)"
        "list_all2 proposedItem added (requestsFor ?base reqs k)"
        by blast
      from v2 k len0
      have vk: "viewSubSteps st2 refs ! k =
          (?v0 ! k)\<lparr>ss_actionItems := Some (itemsOf (?v0 ! k) @ [new])\<rparr>"
        by simp
      have "viewSubSteps st2 refs ! k =
          (?base ! k)\<lparr>ss_actionItems := Some (itemsOf (?base ! k) @ added @ [new])\<rparr>"
      proof (cases "requestsFor ?base reqs k = []")
        case True
        with a have "added = []" "?v0 ! k = ?base ! k" by simp_all
        with vk show ?thesis by simp
      next
        case False
        with a(1)
        have "?v0 ! k = (?base ! k)\<lparr>ss_actionItems := Some (itemsOf (?base ! k) @ added)\<rparr>"
          by simp
        with vk show ?thesis by (simp add: itemsOf_def orElse_def)
      qed
      moreover have "list_all2 proposedItem (added @ [new]) (requestsFor ?base reqs k @ [r])"
        using a(2) pn by (simp add: list_all2_appendI)
      ultimately show ?thesis using True here by auto
    qed
    with wf2 ids2 show ?thesis by simp
  qed
qed

lemma fold_push_filter:
  assumes wf: "wellFormed st1 refs"
  shows "foldl (pushProposedItem gen refs) (st1, g1) reqs =
   foldl (pushProposedItem gen refs) (st1, g1)
     (filter (\<lambda>r. targetSubStepId r \<in> ss_id ` set (viewSubSteps st1 refs)) reqs)"
proof (induction reqs rule: rev_induct)
  case Nil
  then show ?case by simp
next
  case (snoc r reqs)
  obtain st0 g0 where f0: "foldl (pushProposedItem gen refs) (st1, g1) reqs = (st0, g0)"
    by (cases "foldl (pushProposedItem gen refs) (st1, g1) reqs")
  from fold_push_inv [OF wf f0]
  have "map ss_id (viewSubSteps st0 refs) = map ss_id (viewSubSteps st1 refs)" by simp
  then have ids: "ss_id ` set (viewSubSteps st0 refs) = ss_id ` set (viewSubSteps st1 refs)"
    by (metis set_map)
  show ?case
  proof (cases "targetSubStepId r \<in> ss_id ` set (viewSubSteps st1 refs)")
    case True
    with snoc show ?thesis by simp
  next
    case False
    with ids have "targetSubStepId r \<notin> ss_id ` set (viewSubSteps st0 refs)" by simp
    from push_unmatched [OF this] have "pushProposedItem gen refs (st0, g0) r = (st0, g0)" .
    with False snoc f0 show ?thesis by simp
  qed
qed

lemma floor_third: "of_int \<lfloor>real n / 3\<rfloor> = real (n div 3)"
  using floor_divide_of_nat_eq [of n 3, where ?'a = real] by simp

lemma proposedSubStep_fields:
  "proposedSubStep i proposal index =
     \<lparr>ss_id = i, ss_text = prop_title proposal, ss_notes = Some (prop_description proposal),
      ss_position = Some \<lparr>pos_x = 50 + real (index mod 3) * 300,
                          pos_y = 50 + real (index div 3) * 200\<rparr>,
      ss_actionItems = Some [], ss_attachments = Some []\<rparr>"
  by (simp add: proposedSubStep_def floor_third)

lemma mapProposals_Cons:
  "mapProposals gen index (p # ps) (st, g) =
     (case mapProposals gen (Suc index) ps
             (allocProposed (fst (gen ''substep'' g)) p index st, snd (gen ''substep'' g)) of
        (others, st3, g3) \<Rightarrow> (length (objects st) # others, st3, g3))"
  by (simp add: newArray_def newObject_def allocProposed_def case_prod_unfold)

lemma alloc_view_new:
  "viewSubStep (allocProposed i p index st) (length (objects st)) = proposedSubStep i p index"
  by (simp add: allocProposed_def viewSubStep_def proposedObject_def proposedSubStep_def)

lemma alloc_view_old:
  assumes "wellFormed st refs" and "a \<in> set refs"
  shows "viewSubStep (allocProposed i p index st) a = viewSubStep st a"
proof -
  from assms have a: "a < length (objects st)" by (rule wellFormed_bound)
  show ?thesis
  proof (cases "so_actionItems (objects st ! a)")
    case None
    with a show ?thesis by (simp add: allocProposed_def viewSubStep_def nth_append)
  next
    case (Some arr)
    from wellFormed_array [OF assms Some] a Some show ?thesis
      by (simp add: allocProposed_def viewSubStep_def nth_append)
  qed
qed

lemma alloc_wellFormed:
  assumes wf: "wellFormed st refs"
  shows "wellFormed (allocProposed i p index st) (refs @ [length (objects st)])"
proof -
  let ?st' = "allocProposed i p index st"
  let ?a = "length (objects st)"
  have fresh: "?a \<notin> set refs" using wellFormed_bound [OF wf] by blast
  have old: "objects ?st' ! b = objects st ! b" if "b \<in> set refs" for b
    using wellFormed_bound [OF wf that] by (simp add: allocProposed_def nth_append)
  have new: "so_actionItems (objects ?st' ! ?a) = Some (length (arrays st))"
    by (simp add: allocProposed_def proposedObject_def)
  have lens: "length (objects ?st') = Suc ?a" "length (arrays ?st') = Suc (length (arrays st))"
    by (simp_all add: allocProposed_def)
  have w0: "distinct (refs @ [?a])" using wellFormed_distinct [OF wf] fresh by simp
  have w1: "\<forall>b \<in> set (refs @ [?a]). b < length (objects ?st')"
  proof
    fix b assume "b \<in> set (refs @ [?a])"
    then consider "b \<in> set refs" | "b = ?a" by auto
    then show "b < length (objects ?st')"
    proof cases
      case 1
      from wellFormed_bound [OF wf 1] lens show ?thesis by simp
    next
      case 2
      with lens show ?thesis by simp
    qed
  qed
  have arr_old: "arr < length (arrays st)"
    if "b \<in> set refs" "so_actionItems (objects ?st' ! b) = Some arr" for b arr
    using that old wellFormed_array [OF wf] by simp
  have w2: "\<forall>b \<in> set (refs @ [?a]). case so_actionItems (objects ?st' ! b) of
                            None \<Rightarrow> True | Some arr \<Rightarrow> arr < length (arrays ?st')"
  proof
    fix b assume "b \<in> set (refs @ [?a])"
    then consider "b \<in> set refs" | "b = ?a" by auto
    then show "case so_actionItems (objects ?st' ! b) of
                            None \<Rightarrow> True | Some arr \<Rightarrow> arr < length (arrays ?st')"
    proof cases
      case 1
      then show ?thesis using arr_old [OF 1] lens by (auto split: option.splits)
    next
      case 2
      then show ?thesis using new lens by simp
    qed
  qed
  have w3: "\<forall>b \<in> set (refs @ [?a]). \<forall>c \<in> set (refs @ [?a]).
           so_actionItems (objects ?st' ! b) \<noteq> None
           \<and> so_actionItems (objects ?st' ! b) = so_actionItems (objects ?st' ! c) \<longrightarrow> b = c"
  proof (intro ballI impI)
    fix b c assume b: "b \<in> set (refs @ [?a])" and c: "c \<in> set (refs @ [?a])"
      and e: "so_actionItems (objects ?st' ! b) \<noteq> None
           \<and> so_actionItems (objects ?st' ! b) = so_actionItems (objects ?st' ! c)"
    from e have e1: "so_actionItems (objects ?st' ! b) \<noteq> None"
      and e2: "so_actionItems (objects ?st' ! b) = so_actionItems (objects ?st' ! c)" by blast+
    from e1 obtain arr where ab: "so_actionItems (objects ?st' ! b) = Some arr" by blast
    with e2 have ac: "so_actionItems (objects ?st' ! c) = Some arr" by simp
    show "b = c"
    proof (cases "b = ?a")
      case True
      with ab new have arr: "arr = length (arrays st)" by simp
      show ?thesis
      proof (cases "c = ?a")
        case True
        with \<open>b = ?a\<close> show ?thesis by simp
      next
        case False
        with c have "c \<in> set refs" by auto
        from arr_old [OF this ac] arr show ?thesis by simp
      qed
    next
      case False
      with b have b': "b \<in> set refs" by auto
      show ?thesis
      proof (cases "c = ?a")
        case True
        with ac new have "arr = length (arrays st)" by simp
        with arr_old [OF b' ab] show ?thesis by simp
      next
        case False
        with c have c': "c \<in> set refs" by auto
        from ab old [OF b'] have "so_actionItems (objects st ! b) = Some arr" by simp
        moreover from ac old [OF c'] have "so_actionItems (objects st ! c) = Some arr" by simp
        ultimately show ?thesis by (rule wellFormed_unshared [OF wf b' c'])
      qed
    qed
  qed
  from w0 w1 w2 w3 show ?thesis unfolding wellFormed_def by blast
qed

lemma nthId_Suc:
  "nthId gen prefix g (Suc i) = nthId gen prefix (snd (gen prefix g)) i"
proof -
  have "((\<lambda>h. snd (gen prefix h)) ^^ i) (snd (gen prefix g)) =
        snd (gen prefix (((\<lambda>h. snd (gen prefix h)) ^^ i) g))"
    using funpow_swap1 [of "\<lambda>h. snd (gen prefix h)" i g] by simp
  then show ?thesis by (simp add: nthId_def)
qed

lemma mapProposals_inv:
  assumes "mapProposals gen index props (st, g) = (new, st', g')" and "wellFormed st refs"
  shows "wellFormed st' (refs @ new) \<and> viewSubSteps st' refs = viewSubSteps st refs
     \<and> length new = length props
     \<and> (\<forall>i<length props. viewSubStep st' (new ! i) =
           proposedSubStep (nthId gen ''substep'' g i) (props ! i) (index + i))"
  using assms
proof (induction props arbitrary: index st g new st' g' refs)
  case Nil
  then show ?case by simp
next
  case (Cons p ps)
  let ?i = "fst (gen ''substep'' g)"
  let ?g1 = "snd (gen ''substep'' g)"
  let ?st2 = "allocProposed ?i p index st"
  let ?a = "length (objects st)"
  obtain others st3 g3 where rest: "mapProposals gen (Suc index) ps (?st2, ?g1) = (others, st3, g3)"
    by (cases "mapProposals gen (Suc index) ps (?st2, ?g1)")
  with Cons.prems(1) have new: "new = ?a # others" and st': "st' = st3"
    by (simp_all add: mapProposals_Cons del: mapProposals.simps)
  note wf = Cons.prems(2)
  note wf2 = alloc_wellFormed [OF wf, of ?i p index]
  from Cons.IH [OF rest wf2]
  have wf3: "wellFormed st3 ((refs @ [?a]) @ others)"
    and v3: "viewSubSteps st3 (refs @ [?a]) = viewSubSteps ?st2 (refs @ [?a])"
    and len: "length others = length ps"
    and nth: "\<forall>i<length ps. viewSubStep st3 (others ! i) =
           proposedSubStep (nthId gen ''substep'' ?g1 i) (ps ! i) (Suc index + i)"
    by simp_all
  from v3 have v3r: "viewSubSteps st3 refs = viewSubSteps ?st2 refs"
    and v3a: "viewSubStep st3 ?a = viewSubStep ?st2 ?a"
    by (simp_all add: viewSubSteps_def)
  have "viewSubSteps ?st2 refs = viewSubSteps st refs"
    using alloc_view_old [OF wf] by (simp add: viewSubSteps_def)
  with v3r have c2: "viewSubSteps st' refs = viewSubSteps st refs" by (simp add: st')
  from v3a have va: "viewSubStep st3 ?a = proposedSubStep ?i p index"
    by (simp add: alloc_view_new)
  have c4: "viewSubStep st' (new ! i) =
           proposedSubStep (nthId gen ''substep'' g i) ((p # ps) ! i) (index + i)"
    if "i < length (p # ps)" for i
  proof (cases i)
    case 0
    with va show ?thesis by (simp add: new st' nthId_def)
  next
    case (Suc i')
    with that have "i' < length ps" by simp
    with nth Suc show ?thesis by (simp add: new st' nthId_Suc)
  qed
  from wf3 c2 len c4 show ?case by (simp add: new st')
qed

lemma confirm_unfold:
  assumes mp: "mapProposals gen 0 (newSubSteps additions) (st, g) = (new, st1, g1)"
    and fl: "foldl (pushProposedItem gen (refs @ new)) (st1, g1) (newActionItems additions) = (st2, g2)"
  shows "handleProposalConfirm gen additions (s, refs, st, g) =
     (s\<lparr>localDetails := (localDetails s)\<lparr>subSteps := viewSubSteps st2 (refs @ new)\<rparr>,
        showProposalReview := False\<rparr>, refs @ new, st2, g2)"
  using mp fl by (simp add: handleProposalConfirm_def update_subSteps)

text \<open>
  Claim C4. Let the buffer's sub-step list be what is read through its addresses in a well
  formed store. For every set of confirmed additions, \<open>handleProposalConfirm\<close> changes
  only the sub-step list of the buffer (and closes the review). The new list is the
  existing sub-steps followed by one new sub-step per proposal, in proposal order; new
  sub-step \<open>i\<close> (from 0) has the proposal's title and description, position
  \<open>(50 + (i mod 3) * 300, 50 + (i div 3) * 200)\<close>, and is built with empty action items
  and attachments. Each requested action item is appended, not completed, to the first
  sub-step of the combined list whose id is the request's target, in request order, and to
  nothing else; a request whose target no sub-step has is dropped: the result is the same
  as without it. The existing objects are kept, not copied, so whatever else holds them
  reads the appended items too; the store stays well formed.
\<close>

theorem proposalConfirm_layout:
  assumes wf: "wellFormed st refs"
    and rep: "subSteps (localDetails s) = viewSubSteps st refs"
    and run: "handleProposalConfirm gen additions (s, refs, st, g) = (s', refs', st', g')"
  shows "s' = s\<lparr>localDetails := (localDetails s)\<lparr>subSteps := viewSubSteps st' refs'\<rparr>,
                 showProposalReview := False\<rparr>
    \<and> take (length refs) refs' = refs
    \<and> length (subSteps (localDetails s')) = length (combinedSubSteps gen additions s g)
    \<and> combinedSubSteps gen additions s g = subSteps (localDetails s) @ newSubStepsOf gen additions g
    \<and> length (newSubStepsOf gen additions g) = length (newSubSteps additions)
    \<and> (\<forall>i<length (newSubSteps additions).
        newSubStepsOf gen additions g ! i =
          \<lparr>ss_id = nthId gen ''substep'' g i,
           ss_text = prop_title (newSubSteps additions ! i),
           ss_notes = Some (prop_description (newSubSteps additions ! i)),
           ss_position = Some \<lparr>pos_x = 50 + real (i mod 3) * 300,
                               pos_y = 50 + real (i div 3) * 200\<rparr>,
           ss_actionItems = Some [], ss_attachments = Some []\<rparr>)
    \<and> (\<forall>j<length (combinedSubSteps gen additions s g). \<exists>added.
        subSteps (localDetails s') ! j =
          (if requestsFor (combinedSubSteps gen additions s g) (newActionItems additions) j = []
           then combinedSubSteps gen additions s g ! j
           else (combinedSubSteps gen additions s g ! j)
                  \<lparr>ss_actionItems :=
                     Some (itemsOf (combinedSubSteps gen additions s g ! j) @ added)\<rparr>)
        \<and> list_all2 proposedItem added
             (requestsFor (combinedSubSteps gen additions s g) (newActionItems additions) j))
    \<and> handleProposalConfirm gen
        (additions\<lparr>newActionItems :=
           filter (\<lambda>r. targetSubStepId r \<in> ss_id ` set (combinedSubSteps gen additions s g))
             (newActionItems additions)\<rparr>) (s, refs, st, g) = (s', refs', st', g')
    \<and> wellFormed st' refs'
    \<and> viewSubSteps st' refs = take (length refs) (subSteps (localDetails s'))"
proof -
  let ?props = "newSubSteps additions"
  let ?reqs = "newActionItems additions"
  let ?base = "combinedSubSteps gen additions s g"
  obtain new st1 g1 where mp: "mapProposals gen 0 ?props (st, g) = (new, st1, g1)"
    by (cases "mapProposals gen 0 ?props (st, g)")
  obtain st2 g2 where fl: "foldl (pushProposedItem gen (refs @ new)) (st1, g1) ?reqs = (st2, g2)"
    by (cases "foldl (pushProposedItem gen (refs @ new)) (st1, g1) ?reqs")
  from run confirm_unfold [OF mp fl, of s]
  have eq: "(s', refs', st', g') =
      (s\<lparr>localDetails := (localDetails s)\<lparr>subSteps := viewSubSteps st2 (refs @ new)\<rparr>,
                 showProposalReview := False\<rparr>, refs @ new, st2, g2)"
    by (rule trans [OF sym])
  then have s': "s' = s\<lparr>localDetails := (localDetails s)\<lparr>subSteps := viewSubSteps st2 (refs @ new)\<rparr>,
                 showProposalReview := False\<rparr>"
    and refs': "refs' = refs @ new" and st': "st' = st2" and g': "g' = g2"
    by blast+
  from mapProposals_inv [OF mp wf]
  have wf1: "wellFormed st1 (refs @ new)"
    and v1: "viewSubSteps st1 refs = viewSubSteps st refs"
    and ln: "length new = length ?props"
    and nth: "\<forall>i<length ?props. viewSubStep st1 (new ! i) =
           proposedSubStep (nthId gen ''substep'' g i) (?props ! i) i"
    by simp_all
  have vnew: "viewSubSteps st1 new = newSubStepsOf gen additions g"
    by (rule nth_equalityI) (simp_all add: viewSubSteps_def newSubStepsOf_def ln nth)
  have base: "viewSubSteps st1 (refs @ new) = ?base"
    using v1 vnew rep by (simp add: combinedSubSteps_def viewSubSteps_def)
  have lb: "length ?base = length (refs @ new)"
    unfolding base [symmetric] by (simp add: viewSubSteps_def)
  note inv = fold_push_inv [OF wf1 fl, unfolded base]
  have res: "subSteps (localDetails s') = viewSubSteps st2 (refs @ new)"
    by (simp add: s')
  have c1: "s' = s\<lparr>localDetails := (localDetails s)\<lparr>subSteps := viewSubSteps st' refs'\<rparr>,
                 showProposalReview := False\<rparr>"
    by (simp add: s' st' refs')
  have c2: "take (length refs) refs' = refs" by (simp add: refs')
  have c3: "length (subSteps (localDetails s')) = length ?base"
    by (simp add: res lb viewSubSteps_def)
  have c4: "?base = subSteps (localDetails s) @ newSubStepsOf gen additions g"
    by (simp add: combinedSubSteps_def)
  have c5: "length (newSubStepsOf gen additions g) = length ?props"
    by (simp add: newSubStepsOf_def)
  have c6: "\<forall>i<length ?props.
        newSubStepsOf gen additions g ! i =
          \<lparr>ss_id = nthId gen ''substep'' g i,
           ss_text = prop_title (?props ! i),
           ss_notes = Some (prop_description (?props ! i)),
           ss_position = Some \<lparr>pos_x = 50 + real (i mod 3) * 300,
                               pos_y = 50 + real (i div 3) * 200\<rparr>,
           ss_actionItems = Some [], ss_attachments = Some []\<rparr>"
    by (simp add: newSubStepsOf_def proposedSubStep_fields)
  have c7: "\<forall>j<length ?base. \<exists>added.
        subSteps (localDetails s') ! j =
          (if requestsFor ?base ?reqs j = [] then ?base ! j
           else (?base ! j)\<lparr>ss_actionItems := Some (itemsOf (?base ! j) @ added)\<rparr>)
        \<and> list_all2 proposedItem added (requestsFor ?base ?reqs j)"
    unfolding res lb using inv by blast
  let ?kept = "filter (\<lambda>r. targetSubStepId r \<in> ss_id ` set ?base) ?reqs"
  from fold_push_filter [OF wf1, of gen g1 ?reqs] fl
  have flk: "foldl (pushProposedItem gen (refs @ new)) (st1, g1) ?kept = (st2, g2)"
    by (simp add: base)
  have c8: "handleProposalConfirm gen (additions\<lparr>newActionItems := ?kept\<rparr>) (s, refs, st, g) =
      (s', refs', st', g')"
    using confirm_unfold [of gen "additions\<lparr>newActionItems := ?kept\<rparr>" st g new st1 g1 refs st2 g2 s]
      mp flk by (simp add: s' refs' st' g')
  from inv have c9: "wellFormed st' refs'" by (simp add: st' refs')
  have c10: "viewSubSteps st' refs = take (length refs) (subSteps (localDetails s'))"
    by (simp add: res st' viewSubSteps_def)
  from c1 c2 c3 c4 c5 c6 c7 c8 c9 c10 show ?thesis by blast
qed

text \<open>
  A run with two existing sub-steps, four proposals and four requests: two for the
  existing sub-step \<open>a\<close>, which has no array yet, one for the second sub-step \<open>b\<close>, and
  one for an id that no sub-step has. The fourth proposal starts the second row of the
  layout.
\<close>

lemma example_new:
  "mapProposals counterGen 0 (newSubSteps exampleAdditions) (exampleStore, 0) =
     ([2, 3, 4, 5], exampleStore1, 4)"
  by (simp add: exampleAdditions_def counterGen_def exampleStore_def exampleStore1_def
      newArray_def newObject_def eval_nat_numeral)

lemma example_pushed:
  "foldl (pushProposedItem counterGen [0, 1, 2, 3, 4, 5]) (exampleStore1, 4)
     (newActionItems exampleAdditions) = (exampleStore2, 7)"
  by code_simp

lemma example_view: "viewSubSteps exampleStore2 [0, 1, 2, 3, 4, 5] = exampleResult"
  by code_simp

lemma example_run:
  "handleProposalConfirm counterGen exampleAdditions (twoStepState, exampleRefs, exampleStore, 0) =
     (twoStepState\<lparr>localDetails := (localDetails twoStepState)\<lparr>subSteps := exampleResult\<rparr>,
        showProposalReview := False\<rparr>, [0, 1, 2, 3, 4, 5], exampleStore2, 7)"
proof -
  have app: "exampleRefs @ [2, 3, 4, 5] = [0, 1, 2, 3, 4, 5]"
    by (simp add: exampleRefs_def)
  have fl: "foldl (pushProposedItem counterGen (exampleRefs @ [2, 3, 4, 5])) (exampleStore1, 4)
      (newActionItems exampleAdditions) = (exampleStore2, 7)"
    unfolding app by (rule example_pushed)
  show ?thesis
    using confirm_unfold [OF example_new fl, of twoStepState]
    unfolding app example_view .
qed

theorem proposalConfirm_layout_witness:
  "wellFormed exampleStore exampleRefs
   \<and> subSteps (localDetails twoStepState) = viewSubSteps exampleStore exampleRefs
   \<and> subSteps (localDetails (fst (handleProposalConfirm counterGen exampleAdditions
         (twoStepState, exampleRefs, exampleStore, 0)))) = exampleResult
   \<and> length exampleResult = length (combinedSubSteps counterGen exampleAdditions twoStepState 0)
   \<and> viewSubSteps exampleStore2 exampleRefs = take 2 exampleResult"
proof -
  have wfx: "wellFormed exampleStore exampleRefs" by code_simp
  have repx: "subSteps (localDetails twoStepState) = viewSubSteps exampleStore exampleRefs"
    by code_simp
  let ?S = "twoStepState\<lparr>localDetails := (localDetails twoStepState)\<lparr>subSteps := exampleResult\<rparr>,
        showProposalReview := False\<rparr>"
  have sub: "subSteps (localDetails ?S) = exampleResult" by simp
  note layout = proposalConfirm_layout [OF wfx repx example_run]
  from layout have "length (subSteps (localDetails ?S)) =
      length (combinedSubSteps counterGen exampleAdditions twoStepState 0)"
    by blast
  then have len: "length exampleResult =
      length (combinedSubSteps counterGen exampleAdditions twoStepState 0)"
    unfolding sub .
  from layout have "viewSubSteps exampleStore2 exampleRefs =
      take (length exampleRefs) (subSteps (localDetails ?S))"
    by blast
  then have shared: "viewSubSteps exampleStore2 exampleRefs = take 2 exampleResult"
    unfolding sub by (simp add: exampleRefs_def numeral_2_eq_2)
  from wfx repx len shared show ?thesis by (simp add: example_run)
qed

text \<open>
  A consequence of the writes in place. Suppose the persisted details hold the same
  sub-step objects as the buffer and are equal to it otherwise, and only action items
  are confirmed. Then the persisted details read the new items as well, the two
  serializations are equal, and the autosave callback makes no call for this change.
\<close>

lemma confirm_hidden_from_autosave:
  assumes "newSubSteps additions = []"
    and "handleProposalConfirm gen additions (s, refs, st, g) = (s', refs', st', g')"
  shows "refs' = refs"
    and "autosaveTimeout stringify taskId (localDetails s')
           ((localDetails s)\<lparr>subSteps := viewSubSteps st' refs\<rparr>) = []"
proof -
  obtain st2 g2 where fl: "foldl (pushProposedItem gen (refs @ [])) (st, g) (newActionItems additions) = (st2, g2)"
    by (cases "foldl (pushProposedItem gen (refs @ [])) (st, g) (newActionItems additions)")
  have mp: "mapProposals gen 0 (newSubSteps additions) (st, g) = ([], st, g)"
    by (simp add: assms(1))
  from assms(2) confirm_unfold [OF mp fl, of s]
  have "(s', refs', st', g') =
      (s\<lparr>localDetails := (localDetails s)\<lparr>subSteps := viewSubSteps st2 (refs @ [])\<rparr>,
         showProposalReview := False\<rparr>, refs @ [], st2, g2)"
    by (rule trans [OF sym])
  then have s': "s' = s\<lparr>localDetails := (localDetails s)\<lparr>subSteps := viewSubSteps st2 refs\<rparr>,
         showProposalReview := False\<rparr>" and r: "refs' = refs" and st: "st' = st2"
    by simp_all
  from r show "refs' = refs" .
  show "autosaveTimeout stringify taskId (localDetails s')
           ((localDetails s)\<lparr>subSteps := viewSubSteps st' refs\<rparr>) = []"
    by (simp add: s' st autosaveTimeout_def)
qed

subsection \<open>Attaching a file\<close>

text \<open>
  With \<^verbatim>\<open>canEdit\<close> true (the file input is rendered only then), the handler rejects the
  chosen file exactly when its size exceeds 5 * 1024 * 1024 bytes: it alerts, clears the
  input and starts no read. Otherwise it clears the input and starts a read, whose
  \<^verbatim>\<open>onload\<close> sets the attachments to the list that the handler's closure captured,
  followed by the new attachment.
\<close>

lemma attachment_size_limit:
  assumes "canEdit"
  shows "(file_size file > 5 * 1024 * 1024 \<longrightarrow>
            handleAttachmentChange canEdit (Some file) s =
              (s\<lparr>fileInputValue := []\<rparr>, [fileTooLargeMessage], None))
    \<and> (\<not> file_size file > 5 * 1024 * 1024 \<longrightarrow>
            handleAttachmentChange canEdit (Some file) s =
              (s\<lparr>fileInputValue := []\<rparr>, [],
               Some \<lparr>pr_file = file, pr_attachments = attachments (localDetails s)\<rparr>)
          \<and> readerOnload gen \<lparr>pr_file = file, pr_attachments = attachments (localDetails s)\<rparr>
                (ResultString dataUrl) (s', g) =
              (s'\<lparr>localDetails := (localDetails s')\<lparr>attachments :=
                    Some (orElse (attachments (localDetails s)) [] @
                      [\<lparr>att_id = fst (gen ''attach'' g), att_name = file_name file,
                        att_type = file_type file, att_dataUrl = dataUrl\<rparr>])\<rparr>\<rparr>,
               snd (gen ''attach'' g)))"
  using assms
  by (simp add: handleAttachmentChange_def max_bytes readerOnload_def update_attachments
      split: prod.split)

lemma attachment_size_limit_example:
  "file_size bigFile > 5 * 1024 * 1024
   \<and> handleAttachmentChange True (Some bigFile) pickedState =
       (pickedState\<lparr>fileInputValue := []\<rparr>, [fileTooLargeMessage], None)
   \<and> \<not> file_size limitFile > 5 * 1024 * 1024
   \<and> attachments (localDetails (fst (readerOnload counterGen
         \<lparr>pr_file = limitFile, pr_attachments = attachments (localDetails pickedState)\<rparr>
         (ResultString ''data:image/png;base64,AAAA'')
         (pickedState\<lparr>fileInputValue := []\<rparr>, 0)))) =
       Some [\<lparr>att_id = ''attach-i'', att_name = ''limit.png'', att_type = ''image/png'',
              att_dataUrl = ''data:image/png;base64,AAAA''\<rparr>]"
  using attachment_size_limit [of True bigFile pickedState counterGen
      "''data:image/png;base64,AAAA''" "pickedState\<lparr>fileInputValue := []\<rparr>" 0]
    attachment_size_limit [of True limitFile pickedState counterGen
      "''data:image/png;base64,AAAA''" "pickedState\<lparr>fileInputValue := []\<rparr>" 0]
  by (simp add: bigFile_def limitFile_def pickedState_def exampleState_def initialState_def
      extendedDetails_def exampleStoredTask_def exampleTask_def exampleDetails_def
      defaultDetails_def orElse_def counterGen_def)

text \<open>
  Claim C5 says that the new attachment is appended to the existing attachments list,
  which is otherwise preserved. That fails when the list changes between the choice of the
  file and the end of the read, because \<^verbatim>\<open>onload\<close> writes the list captured at the choice
  and not the list that is current. Two files within the size limit are chosen one after
  the other, before the first read has ended; both handlers capture the empty list. When
  the first read ends the list holds the first attachment; when the second read ends the
  list holds the second attachment only: the first one is lost.
\<close>

theorem attachment_lost_update:
  "handleAttachmentChange True (Some firstFile) exampleState = (exampleState, [], Some firstRead)
   \<and> handleAttachmentChange True (Some secondFile) exampleState = (exampleState, [], Some secondRead)
   \<and> attachments (localDetails (fst
        (readerOnload counterGen firstRead (ResultString ''data:one'') (exampleState, 0)))) =
       Some [\<lparr>att_id = ''attach-i'', att_name = ''one.png'', att_type = ''image/png'',
              att_dataUrl = ''data:one''\<rparr>]
   \<and> attachments (localDetails (fst
        (readerOnload counterGen secondRead (ResultString ''data:two'')
          (readerOnload counterGen firstRead (ResultString ''data:one'') (exampleState, 0))))) =
       Some [\<lparr>att_id = ''attach-ii'', att_name = ''two.txt'', att_type = ''text/plain'',
              att_dataUrl = ''data:two''\<rparr>]"
  by (simp add: handleAttachmentChange_def readerOnload_def MAX_FILE_SIZE_BYTES_def
      MAX_FILE_SIZE_MB_def firstFile_def secondFile_def firstRead_def secondRead_def
      exampleState_def initialState_def extendedDetails_def exampleStoredTask_def
      exampleTask_def exampleDetails_def defaultDetails_def counterGen_def
      updateLocalDetails_def spreadDetails_def onlyAttachments_def noUpdates_def orElse_def)

subsection \<open>Generating slides\<close>

text \<open>
  Claim C6. Let the button that calls \<open>handleGenerateSlides\<close> be enabled, so that the
  handler can be invoked. When the local details hold a report deck, the handler opens the
  slide editor, makes no request of the AI service and changes nothing else, the deck
  included. When they hold none, it requests a deck for the task and the project goal;
  when the call returns, the deck is stored in the buffer and the editor opened; when it
  throws, an error message is recorded and the local details stay as they were, still
  without a deck. In every case \<^verbatim>\<open>isGeneratingSlides\<close> is false afterwards. The step that
  runs after the call is described for any state \<open>s'\<close> it may find.
\<close>

theorem generateSlides_branches:
  assumes "\<not> slidesButtonDisabled s"
  shows "(\<forall>deck. reportDeck (localDetails s) = Some deck \<longrightarrow>
       handleGenerateSlides_start task projectGoal s = (s\<lparr>isSlideEditorOpen := True\<rparr>, None)
     \<and> handleGenerateSlides task projectGoal outcome s = s\<lparr>isSlideEditorOpen := True\<rparr>)
   \<and> (reportDeck (localDetails s) = None \<longrightarrow>
       handleGenerateSlides_start task projectGoal s =
         (s\<lparr>isGeneratingSlides := True, slideError := None\<rparr>, Some (task, projectGoal))
     \<and> handleGenerateSlides task projectGoal (Fulfilled new) s =
         s\<lparr>slideError := None, localDetails := (localDetails s)\<lparr>reportDeck := Some new\<rparr>,
            isSlideEditorOpen := True, isGeneratingSlides := False\<rparr>
     \<and> handleGenerateSlides task projectGoal (RejectedWith (ErrorObject message)) s =
         s\<lparr>slideError := Some message, isGeneratingSlides := False\<rparr>
     \<and> handleGenerateSlides task projectGoal (RejectedWith NotAnError) s =
         s\<lparr>slideError := Some slideFallbackMessage, isGeneratingSlides := False\<rparr>)
   \<and> handleGenerateSlides_settled (Fulfilled new) s' =
         s'\<lparr>localDetails := (localDetails s')\<lparr>reportDeck := Some new\<rparr>,
            isSlideEditorOpen := True, isGeneratingSlides := False\<rparr>
   \<and> (\<forall>err. localDetails (handleGenerateSlides_settled (RejectedWith err) s') = localDetails s'
          \<and> slideError (handleGenerateSlides_settled (RejectedWith err) s') \<noteq> None)
   \<and> \<not> isGeneratingSlides (handleGenerateSlides_settled outcome s')
   \<and> \<not> isGeneratingSlides (handleGenerateSlides task projectGoal outcome s)"
  using assms
  by (simp add: handleGenerateSlides_def handleGenerateSlides_start_def slidesButtonDisabled_def
      handleGenerateSlides_settled_def update_reportDeck split: Settled.split Thrown.split option.split)

theorem generateSlides_branches_witness:
  "\<not> slidesButtonDisabled stateWithDeck
   \<and> reportDeck (localDetails stateWithDeck) = Some exampleDeck
   \<and> handleGenerateSlides exampleTask ''goal'' (Fulfilled \<lparr>slides = []\<rparr>) stateWithDeck =
       stateWithDeck\<lparr>isSlideEditorOpen := True\<rparr>
   \<and> \<not> slidesButtonDisabled exampleState
   \<and> reportDeck (localDetails exampleState) = None
   \<and> handleGenerateSlides exampleTask ''goal'' (Fulfilled exampleDeck) exampleState =
       exampleState\<lparr>localDetails := (localDetails exampleState)\<lparr>reportDeck := Some exampleDeck\<rparr>,
         isSlideEditorOpen := True\<rparr>
   \<and> handleGenerateSlides exampleTask ''goal'' (RejectedWith (ErrorObject ''quota'')) exampleState =
       exampleState\<lparr>slideError := Some ''quota''\<rparr>"
proof -
  have b1: "\<not> slidesButtonDisabled stateWithDeck"
    by (simp add: slidesButtonDisabled_def stateWithDeck_def exampleState_def initialState_def)
  have b2: "\<not> slidesButtonDisabled exampleState"
    by (simp add: slidesButtonDisabled_def exampleState_def initialState_def)
  from generateSlides_branches [OF b1, of exampleTask "''goal''" "Fulfilled \<lparr>slides = []\<rparr>"]
    generateSlides_branches [OF b2, of exampleTask "''goal''" _ exampleDeck "''quota''"] b1 b2
  show ?thesis
    by (simp add: stateWithDeck_def exampleState_def initialState_def extendedDetails_def
        exampleStoredTask_def exampleDetails_def defaultDetails_def)
qed

subsection \<open>Generating proposals\<close>

text \<open>
  Claim C7. Whenever \<open>handleGenerateProposals\<close> calls the AI service (it does so, for the
  task, when \<^verbatim>\<open>canEdit\<close> is true): if the call throws an \<^verbatim>\<open>Error\<close>, the recorded error is
  its message, and if it throws anything else, the fixed fallback message; the review
  modal is not opened and the local details stay as they were. If the call returns, the
  proposals are stored and the review modal is opened. After either outcome
  \<^verbatim>\<open>isGeneratingProposals\<close> is false. This holds for the step that runs after the call on
  any state \<open>s'\<close>, and for the handler as a whole.
\<close>

theorem generateProposals_outcomes:
  assumes "snd (handleGenerateProposals_start canEdit task s) = Some request"
  shows "request = task
    \<and> handleGenerateProposals_start canEdit task s =
        (s\<lparr>isGeneratingProposals := True, proposalError := None\<rparr>, Some task)
    \<and> handleGenerateProposals_settled (RejectedWith (ErrorObject message)) s' =
        s'\<lparr>proposalError := Some message, isGeneratingProposals := False\<rparr>
    \<and> handleGenerateProposals_settled (RejectedWith NotAnError) s' =
        s'\<lparr>proposalError := Some proposalFallbackMessage, isGeneratingProposals := False\<rparr>
    \<and> handleGenerateProposals_settled (Fulfilled generated) s' =
        s'\<lparr>proposals := generated, showProposalReview := True, isGeneratingProposals := False\<rparr>
    \<and> handleGenerateProposals canEdit task (RejectedWith (ErrorObject message)) s =
        s\<lparr>proposalError := Some message, isGeneratingProposals := False\<rparr>
    \<and> handleGenerateProposals canEdit task (RejectedWith NotAnError) s =
        s\<lparr>proposalError := Some proposalFallbackMessage, isGeneratingProposals := False\<rparr>
    \<and> handleGenerateProposals canEdit task (Fulfilled generated) s =
        s\<lparr>proposalError := None, proposals := generated, showProposalReview := True,
           isGeneratingProposals := False\<rparr>"
proof -
  from assms have "canEdit"
    by (cases canEdit) (simp_all add: handleGenerateProposals_start_def)
  with assms show ?thesis
    by (simp add: handleGenerateProposals_start_def handleGenerateProposals_settled_def
        handleGenerateProposals_def)
qed

theorem generateProposals_outcomes_witness:
  "snd (handleGenerateProposals_start True exampleTask exampleState) = Some exampleTask
   \<and> handleGenerateProposals True exampleTask (RejectedWith (ErrorObject ''quota'')) exampleState =
       exampleState\<lparr>proposalError := Some ''quota''\<rparr>
   \<and> handleGenerateProposals True exampleTask (Fulfilled exampleProposals) exampleState =
       exampleState\<lparr>proposals := exampleProposals, showProposalReview := True\<rparr>"
proof -
  have called: "snd (handleGenerateProposals_start True exampleTask exampleState) = Some exampleTask"
    by (simp add: handleGenerateProposals_start_def)
  from generateProposals_outcomes [OF called, of "''quota''" exampleState exampleProposals] called
  show ?thesis
    by (simp add: exampleState_def initialState_def)
qed

subsection \<open>Read-only mode\<close>

lemma invoke_read_only: "invoke gen False task (s, g) call = (s, g)"
  by (cases call)
     (simp_all add: invoke_def handleGenerateProposals_def handleGenerateProposals_start_def
        handleAddSubStep_def handleUpdateSubStep_def handleRemoveSubStep_def
        handleAddActionItem_def handleUpdateActionItem_def handleRemoveActionItem_def
        handleAttachmentChange_def handleRemoveAttachment_def handleSubStepDragStart_def
        handleCanvasDrop_def)

lemma invokeAll_read_only: "invokeAll gen False task (s, g) calls = (s, g)"
  unfolding invokeAll_def by (induction calls) (simp_all add: invoke_read_only)

text \<open>
  Claim C8. When \<^verbatim>\<open>canEdit\<close> is false, each of the eleven handlers that check it returns
  without changing the state, whatever its arguments and whatever the environment would
  answer; so after any sequence of invocations of them the local details are what they
  were, and, starting from the first render, they are the task's details.
\<close>

theorem read_only_buffer:
  "invokeAll gen False task (s, g) calls = (s, g)
   \<and> localDetails (fst (invokeAll gen False task (s, g) calls)) = localDetails s
   \<and> localDetails (fst (invokeAll gen False task (initialState task, g) calls)) =
       extendedDetails task"
  by (simp add: invokeAll_read_only initialState_def)

subsection \<open>Flattened action items\<close>

lemma foldl_push_pairs:
  "foldl (\<lambda>acc ai. acc @ [\<lparr>actionItem = ai, subStep = ss\<rparr>]) items ais =
   items @ map (\<lambda>ai. \<lparr>actionItem = ai, subStep = ss\<rparr>) ais"
  by (induction ais arbitrary: items) simp_all

lemma pushActionItems_append:
  "pushActionItems items ss = items @ map (\<lambda>ai. \<lparr>actionItem = ai, subStep = ss\<rparr>) (itemsOf ss)"
  by (simp add: pushActionItems_def itemsOf_def orElse_def foldl_push_pairs split: option.split)

lemma foldl_pushActionItems:
  "foldl pushActionItems items sss =
   items @ concat (map (\<lambda>ss. map (\<lambda>ai. \<lparr>actionItem = ai, subStep = ss\<rparr>) (itemsOf ss)) sss)"
  by (induction sss arbitrary: items) (simp_all add: pushActionItems_append)

lemma flattened_concat:
  "flattenedActionItems d =
   concat (map (\<lambda>ss. map (\<lambda>ai. \<lparr>actionItem = ai, subStep = ss\<rparr>) (itemsOf ss)) (subSteps d))"
  by (simp add: flattenedActionItems_def foldl_pushActionItems)

lemma filter_completed_pairs:
  "filter (\<lambda>item. ai_completed (actionItem item)) (map (\<lambda>ai. \<lparr>actionItem = ai, subStep = ss\<rparr>) ais) =
   map (\<lambda>ai. \<lparr>actionItem = ai, subStep = ss\<rparr>) (filter ai_completed ais)"
  by (induction ais) simp_all

text \<open>
  Claim C9. For every value of the local details, \<open>flattenedActionItems\<close> is the
  concatenation, in sub-step order, of each sub-step's action items (none when the
  property is missing), each paired with the sub-step that owns it; so the displayed total
  is the sum of the sub-steps' item counts, and the displayed number of completed actions
  is the sum of the sub-steps' completed counts.
\<close>

theorem flattenedActionItems_concat:
  "flattenedActionItems d =
     concat (map (\<lambda>ss. map (\<lambda>ai. \<lparr>actionItem = ai, subStep = ss\<rparr>) (itemsOf ss)) (subSteps d))
   \<and> actionItemTotal d = sum_list (map (\<lambda>ss. length (itemsOf ss)) (subSteps d))
   \<and> completedActionCount d =
       sum_list (map (\<lambda>ss. length (filter ai_completed (itemsOf ss))) (subSteps d))"
proof (intro conjI)
  show "flattenedActionItems d =
     concat (map (\<lambda>ss. map (\<lambda>ai. \<lparr>actionItem = ai, subStep = ss\<rparr>) (itemsOf ss)) (subSteps d))"
    by (rule flattened_concat)
  show "actionItemTotal d = sum_list (map (\<lambda>ss. length (itemsOf ss)) (subSteps d))"
    by (simp add: actionItemTotal_def flattened_concat length_concat comp_def)
  show "completedActionCount d =
       sum_list (map (\<lambda>ss. length (filter ai_completed (itemsOf ss))) (subSteps d))"
    by (simp add: completedActionCount_def flattened_concat filter_concat length_concat
        comp_def filter_completed_pairs)
qed

subsection \<open>The initial buffer\<close>

text \<open>
  Claim C10. For a task without extended details, the edit buffer of the first render has
  empty lists of sub-steps, attachments and decisions, empty resources, responsible and
  notes strings, and a canvas of width 1200 and height 800; for a task with extended
  details, the buffer is exactly that value. The effect that copies the task's details
  into the buffer leaves this first state as it is.
\<close>

theorem initial_buffer:
  "(task_extendedDetails task = None \<longrightarrow>
      localDetails (initialState task) =
        \<lparr>subSteps = [], resources = [], responsible = [], d_notes = [],
         attachments = Some [], decisions = Some [],
         subStepCanvasSize = Some \<lparr>cs_width = 1200, cs_height = 800\<rparr>, reportDeck = None\<rparr>)
   \<and> (\<forall>d. task_extendedDetails task = Some d \<longrightarrow> localDetails (initialState task) = d)
   \<and> syncLocalDetails task (initialState task) = initialState task"
  by (simp add: initialState_def extendedDetails_def defaultDetails_def syncLocalDetails_def)

theorem initial_buffer_witness:
  "task_extendedDetails exampleTask = None
   \<and> localDetails (initialState exampleTask) =
        \<lparr>subSteps = [], resources = [], responsible = [], d_notes = [],
         attachments = Some [], decisions = Some [],
         subStepCanvasSize = Some \<lparr>cs_width = 1200, cs_height = 800\<rparr>, reportDeck = None\<rparr>
   \<and> task_extendedDetails exampleStoredTask = Some exampleDetails
   \<and> localDetails (initialState exampleStoredTask) = exampleDetails"
  using initial_buffer [of exampleTask] initial_buffer [of exampleStoredTask]
  by (simp add: exampleTask_def exampleStoredTask_def)

end

